theory Spec2Isabelle
  imports Main "HOL-Library.Word"
begin

unbundle bit_operations_syntax

section \<open>Bytes and Python slices\<close>

text \<open>
  The scripts work on \<^verbatim>\<open>bytearray\<close> values. A byte is an 8-bit word, a buffer a list of
  bytes. Python integers are unbounded, so offsets and addresses are \<^typ>\<open>int\<close>.
\<close>

type_synonym byte = "8 word"

text \<open>
  A slice bound \<open>i\<close> of a sequence of length \<open>n\<close> is clamped the way Python does it: a negative
  bound counts from the end and stops at 0, a bound past the end stops at \<open>n\<close>.
\<close>

definition py_index :: "nat \<Rightarrow> int \<Rightarrow> nat" where
  "py_index n i = (if i < 0 then nat (max 0 (int n + i)) else min n (nat i))"

text \<open>\<^verbatim>\<open>xs[a:b]\<close>\<close>

definition py_slice :: "'a list \<Rightarrow> int \<Rightarrow> int \<Rightarrow> 'a list" where
  "py_slice xs a b =
     (let s = py_index (length xs) a; e = py_index (length xs) b
      in take (e - s) (drop s xs))"

text \<open>\<^verbatim>\<open>xs[a:]\<close>\<close>

definition py_slice_from :: "'a list \<Rightarrow> int \<Rightarrow> 'a list" where
  "py_slice_from xs a = drop (py_index (length xs) a) xs"

text \<open>
  \<^verbatim>\<open>xs[a:b] = ys\<close> on a bytearray: the slice is replaced by \<open>ys\<close>, whatever the length of
  \<open>ys\<close>; an empty slice (\<open>b\<close> before \<open>a\<close>) inserts at \<open>a\<close>.
\<close>

definition py_slice_assign :: "'a list \<Rightarrow> int \<Rightarrow> int \<Rightarrow> 'a list \<Rightarrow> 'a list" where
  "py_slice_assign xs a b ys =
     (let s = py_index (length xs) a; e = max s (py_index (length xs) b)
      in take s xs @ ys @ drop e xs)"

text \<open>The four bytes of a value in little-endian order.\<close>

definition le32 :: "int \<Rightarrow> byte list" where
  "le32 v = [word_of_int v, word_of_int (v div 0x100),
             word_of_int (v div 0x10000), word_of_int (v div 0x1000000)]"

section \<open>The extended-header patcher\<close>

text \<open>
  \<^verbatim>\<open>src/scripts/patch_exheader.py\<close> and \<^verbatim>\<open>src/patch_exheader_fixed.py\<close>. Both compute the
  same sizes from the lengths of the padded and the patched image file and write four
  32-bit fields into the header. What can go wrong is a value.
\<close>

datatype patch_error = StructError | ExHeaderTooSmall

text \<open>\<^verbatim>\<open>(val + 0xFFF) & ~0xFFF\<close>\<close>

definition round_up_0x1000 :: "int \<Rightarrow> int" where
  "round_up_0x1000 val = (val + 0xFFF) AND NOT 0xFFF"

text \<open>\<^verbatim>\<open>struct.pack('<I', v)\<close> raises \<^verbatim>\<open>struct.error\<close> outside the unsigned 32-bit range.\<close>

definition pack_u32 :: "int \<Rightarrow> patch_error + byte list" where
  "pack_u32 v = (if 0 \<le> v \<and> v < 2 ^ 32 then Inr (le32 v) else Inl StructError)"

definition base_data_size :: int where
  "base_data_size = 0x001BBF78 + 0x001E16FC"

text \<open>The local variables of \<^verbatim>\<open>patch_exheader\<close>, from the two file sizes.\<close>

definition delta :: "nat \<Rightarrow> nat \<Rightarrow> int" where
  "delta size_padded size_patched = int size_patched - int size_padded"

definition raw_new_data_size :: "nat \<Rightarrow> nat \<Rightarrow> int" where
  "raw_new_data_size size_padded size_patched = base_data_size + delta size_padded size_patched"

definition new_data_size :: "nat \<Rightarrow> nat \<Rightarrow> int" where
  "new_data_size size_padded size_patched =
     round_up_0x1000 (raw_new_data_size size_padded size_patched)"

definition pages :: "nat \<Rightarrow> nat \<Rightarrow> int" where
  "pages size_padded size_patched = new_data_size size_padded size_patched div 0x1000"

definition code_size :: "nat \<Rightarrow> int" where
  "code_size size_patched = round_up_0x1000 (int size_patched)"

text \<open>
  The four field writes, in the order of the source. Each \<^verbatim>\<open>struct.pack\<close> is evaluated
  before its slice assignment, so a value that does not fit stops the run there and
  nothing is written to disk.
\<close>

definition write_fields :: "byte list \<Rightarrow> nat \<Rightarrow> nat \<Rightarrow> patch_error + byte list" where
  "write_fields ex size_padded size_patched =
     (case pack_u32 (code_size size_patched) of
        Inl e \<Rightarrow> Inl e
      | Inr b0 \<Rightarrow>
     (case pack_u32 0 of
        Inl e \<Rightarrow> Inl e
      | Inr b8 \<Rightarrow>
     (case pack_u32 (new_data_size size_padded size_patched) of
        Inl e \<Rightarrow> Inl e
      | Inr bC \<Rightarrow>
     (case pack_u32 (pages size_padded size_patched) of
        Inl e \<Rightarrow> Inl e
      | Inr b34 \<Rightarrow>
          Inr (py_slice_assign
                (py_slice_assign
                  (py_slice_assign
                    (py_slice_assign ex 0x00 0x04 b0)
                    0x08 0x0C b8)
                  0x0C 0x10 bC)
                0x34 0x38 b34)))))"

text \<open>\<^verbatim>\<open>src/scripts/patch_exheader.py\<close>: no check of the header's length.\<close>

definition patch_exheader :: "byte list \<Rightarrow> nat \<Rightarrow> nat \<Rightarrow> patch_error + byte list" where
  "patch_exheader ex size_padded size_patched = write_fields ex size_padded size_patched"

text \<open>
  \<^verbatim>\<open>src/patch_exheader_fixed.py\<close>: a header shorter than \<open>0x38\<close> bytes is refused; an
  exception of the field writes is caught and the function returns \<^verbatim>\<open>False\<close>, again
  without output.
\<close>

definition patch_exheader_fixed :: "byte list \<Rightarrow> nat \<Rightarrow> nat \<Rightarrow> patch_error + byte list" where
  "patch_exheader_fixed ex size_padded size_patched =
     (if length ex < 0x38 then Inl ExHeaderTooSmall
      else write_fields ex size_padded size_patched)"

section \<open>The codec and the in-place patcher\<close>

text \<open>
  \<^verbatim>\<open>src/scripts/code_bin_trad_no_extend.py\<close>. A Python string is a list of code points
  (each below \<open>0x110000\<close>). \<^verbatim>\<open>str.encode('utf-16le')\<close> writes one 2-byte unit for a code
  point below \<open>0x10000\<close> and a surrogate pair above; it raises on a surrogate code point.
  \<^verbatim>\<open>bytes.decode('utf-16le', errors='ignore')\<close> never raises: an odd last byte, a low
  surrogate on its own and a high surrogate not followed by a low one are skipped (the high
  surrogate alone, the decoder going on at the next unit), and a high surrogate with
  fewer than two bytes behind it drops the rest of the input.
\<close>

type_synonym py_str = "nat list"

datatype codec_error = UnicodeEncodeError

definition is_surrogate :: "nat \<Rightarrow> bool" where
  "is_surrogate c = (0xD800 \<le> c \<and> c \<le> 0xDFFF)"

definition unit_bytes :: "nat \<Rightarrow> byte list" where
  "unit_bytes u = [of_nat (u mod 0x100), of_nat (u div 0x100)]"

definition unit_of :: "byte \<Rightarrow> byte \<Rightarrow> nat" where
  "unit_of lo hi = unat lo + 0x100 * unat hi"

definition char_bytes :: "nat \<Rightarrow> byte list" where
  "char_bytes c =
     (if c < 0x10000 then unit_bytes c
      else unit_bytes (0xD800 + (c - 0x10000) div 0x400)
           @ unit_bytes (0xDC00 + (c - 0x10000) mod 0x400))"

fun encode_utf16le :: "py_str \<Rightarrow> codec_error + byte list" where
  "encode_utf16le [] = Inr []"
| "encode_utf16le (c # cs) =
     (if is_surrogate c then Inl UnicodeEncodeError
      else case encode_utf16le cs of
             Inl e \<Rightarrow> Inl e
           | Inr bs \<Rightarrow> Inr (char_bytes c @ bs))"

fun decode_utf16le :: "byte list \<Rightarrow> py_str" where
  "decode_utf16le (lo # hi # rest) =
     (let u = unit_of lo hi in
      if \<not> is_surrogate u then u # decode_utf16le rest
      else if 0xDC00 \<le> u then decode_utf16le rest
      else (case rest of
              lo2 # hi2 # rest2 \<Rightarrow>
                (let u2 = unit_of lo2 hi2 in
                 if 0xDC00 \<le> u2 \<and> u2 \<le> 0xDFFF
                 then (0x10000 + (u - 0xD800) * 0x400 + (u2 - 0xDC00)) # decode_utf16le rest2
                 else decode_utf16le rest)
            | _ \<Rightarrow> []))"
| "decode_utf16le _ = []"

text \<open>
  \<^verbatim>\<open>SEPARATOR_PATTERN = re.compile(rb'(?:\x00\x00|\xff\xff)+')\<close>: \<open>sep_run bs\<close> is what
  \<^verbatim>\<open>SEPARATOR_PATTERN.match(bs)\<close> matches, the longest run of separator pairs at the start
  of \<open>bs\<close>, and \<open>[]\<close> when there is no match.
\<close>

definition is_sep_pair :: "byte \<Rightarrow> byte \<Rightarrow> bool" where
  "is_sep_pair a b = ((a = 0x00 \<and> b = 0x00) \<or> (a = 0xFF \<and> b = 0xFF))"

fun sep_run :: "byte list \<Rightarrow> byte list" where
  "sep_run (a # b # rest) = (if is_sep_pair a b then a # b # sep_run rest else [])"
| "sep_run _ = []"

text \<open>
  \<^verbatim>\<open>extract_string(data, offset)\<close>: the loop moves \<open>e\<close> two bytes at a time until a
  separator pair starts at \<open>e\<close> or fewer than two bytes are left.
\<close>

function scan_end :: "byte list \<Rightarrow> int \<Rightarrow> int" where
  "scan_end data e =
     (if e < int (length data) - 1
      then (if sep_run (py_slice data e (e + 4)) \<noteq> [] then e else scan_end data (e + 2))
      else e)"
  by pat_completeness auto
termination
  by (relation "measure (\<lambda>(data, e). nat (int (length data) - 1 - e))") auto

declare scan_end.simps [simp del]

definition extract_string :: "byte list \<Rightarrow> int \<Rightarrow> byte list \<times> int" where
  "extract_string data offset = (let e = scan_end data offset in (py_slice data offset e, e))"

text \<open>
  The adjustment to the original size in \<^verbatim>\<open>patch_binary\<close>: a longer translation is cut,
  a shorter one is filled with \<^verbatim>\<open>b'\x20\x00'\<close> units.
\<close>

definition fit_original_size :: "byte list \<Rightarrow> byte list \<Rightarrow> byte list" where
  "fit_original_size translated_bytes original_bytes =
     (if length translated_bytes > length original_bytes
      then take (length original_bytes) translated_bytes
      else if length translated_bytes < length original_bytes
      then (let pad_units = (length original_bytes - length translated_bytes) div 2
            in translated_bytes @ concat (replicate pad_units [0x20, 0x00]))
      else translated_bytes)"

text \<open>
  One turn of the loop of \<^verbatim>\<open>patch_binary\<close> on a pointer \<open>(offset, size)\<close>; the size read
  from the CSV file is not used. \<open>translate_text\<close> asks a translation service and is a
  parameter here. The only exception the turn can raise is the encoder's.
\<close>

definition patch_entry ::
  "(py_str \<Rightarrow> py_str) \<Rightarrow> byte list \<Rightarrow> int \<times> int \<Rightarrow> codec_error + byte list" where
  "patch_entry translate_text data p =
     (let offset = fst p;
          (original_bytes, e) = extract_string data offset;
          original_text = decode_utf16le original_bytes;
          translated_text = translate_text original_text
      in case encode_utf16le translated_text of
           Inl err \<Rightarrow> Inl err
         | Inr translated_bytes \<Rightarrow>
            (let sep_bytes = sep_run (py_slice_from data e);
                 n = int (length original_bytes);
                 data1 = py_slice_assign data offset (offset + n)
                           (fit_original_size translated_bytes original_bytes)
             in Inr (if sep_bytes \<noteq> []
                     then py_slice_assign data1 (offset + n)
                            (offset + n + int (length sep_bytes)) sep_bytes
                     else data1)))"

fun patch_binary ::
  "(py_str \<Rightarrow> py_str) \<Rightarrow> byte list \<Rightarrow> (int \<times> int) list \<Rightarrow> codec_error + byte list" where
  "patch_binary translate_text data [] = Inr data"
| "patch_binary translate_text data (p # pointers) =
     (case patch_entry translate_text data p of
        Inl err \<Rightarrow> Inl err
      | Inr data' \<Rightarrow> patch_binary translate_text data' pointers)"

section \<open>The relocating injector\<close>

text \<open>
  \<^verbatim>\<open>src/scripts/inject_from_file.py\<close>. Every row of the translated CSV file is appended to
  the image, and the pointers of the row are overwritten with the address of the
  appended block.
\<close>

definition BASE_ADDR :: int where
  "BASE_ADDR = 0x0100000"

definition MAX_CHAINES :: nat where
  "MAX_CHAINES = 13988"

text \<open>
  \<^verbatim>\<open>int.to_bytes(4, 'little')\<close> raises \<^verbatim>\<open>OverflowError\<close> outside the unsigned 32-bit
  range; nothing catches it, the run stops and no output file is written.
\<close>

datatype inject_error = OverflowError

text \<open>
  A row of the CSV file, as the loop body reads it: the text with its line breaks restored
  and encoded (\<^verbatim>\<open>utf16_bytes\<close>), the separator bytes (\<^verbatim>\<open>sep_bytes\<close>) and the virtual
  addresses of the pointers (\<^verbatim>\<open>int(off_s, 16)\<close> for each field of
  \<^verbatim>\<open>pointer_offsets\<close>). A row whose fields cannot be read this way raises and stops the
  run before any output is written; such rows are not part of the model.
\<close>

record row =
  row_utf16_bytes :: "byte list"
  row_sep_bytes :: "byte list"
  row_pointer_offsets :: "int list"

text \<open>The two variables the loop changes.\<close>

record state =
  st_data :: "byte list"
  st_cursor :: int

definition to_bytes4 :: "int \<Rightarrow> inject_error + byte list" where
  "to_bytes4 v = (if 0 \<le> v \<and> v < 2 ^ 32 then Inr (le32 v) else Inl OverflowError)"

definition block :: "row \<Rightarrow> byte list" where
  "block r = row_utf16_bytes r @ row_sep_bytes r"

definition new_addr :: "state \<Rightarrow> int" where
  "new_addr st = BASE_ADDR + st_cursor st"

text \<open>
  The inner loop, lines 49 to 56: a pointer whose file offset is negative or whose four
  bytes would end past the image is reported and skipped (\<^verbatim>\<open>continue\<close>); the other
  pointers are overwritten.
\<close>

fun rewrite_pointers :: "int \<Rightarrow> int list \<Rightarrow> byte list \<Rightarrow> inject_error + byte list" where
  "rewrite_pointers a [] d = Inr d"
| "rewrite_pointers a (addr_virt # rest) d =
     (let off = addr_virt - BASE_ADDR in
      if off < 0 \<or> off + 4 > int (length d) then rewrite_pointers a rest d
      else (case to_bytes4 a of
              Inl e \<Rightarrow> Inl e
            | Inr b \<Rightarrow> rewrite_pointers a rest (py_slice_assign d off (off + 4) b)))"

text \<open>The body of the outer loop for one row, lines 41 to 59.\<close>

definition process_row :: "state \<Rightarrow> row \<Rightarrow> inject_error + state" where
  "process_row st r =
     (case rewrite_pointers (new_addr st) (row_pointer_offsets r) (st_data st) of
        Inl e \<Rightarrow> Inl e
      | Inr d \<Rightarrow> Inr \<lparr>st_data = d @ block r,
                      st_cursor = st_cursor st + int (length (block r))\<rparr>)"

text \<open>The outer loop stops at \<^verbatim>\<open>MAX_CHAINES\<close> rows.\<close>

fun main_loop :: "nat \<Rightarrow> state \<Rightarrow> row list \<Rightarrow> inject_error + state" where
  "main_loop idx st [] = Inr st"
| "main_loop idx st (r # rows) =
     (if idx \<ge> MAX_CHAINES then Inr st
      else (case process_row st r of
              Inl e \<Rightarrow> Inl e
            | Inr st' \<Rightarrow> main_loop (Suc idx) st' rows))"

text \<open>
  Lines 27 to 35: the image is read and the cursor starts at its length. \<^verbatim>\<open>main\<close> runs the
  loop from there and writes the image out.
\<close>

definition start_state :: "byte list \<Rightarrow> state" where
  "start_state input = \<lparr>st_data = input, st_cursor = int (length input)\<rparr>"

definition main :: "byte list \<Rightarrow> row list \<Rightarrow> inject_error + byte list" where
  "main input rows =
     (case main_loop 0 (start_state input) rows of
        Inl e \<Rightarrow> Inl e
      | Inr st \<Rightarrow> Inr (st_data st))"

text \<open>
  The guard of the inner loop, negated: the pointer's four bytes lie inside an image of
  \<open>n\<close> bytes. \<open>slot p i\<close>: byte \<open>i\<close> of the image is one of them.
\<close>

definition pointer_in_file :: "nat \<Rightarrow> int \<Rightarrow> bool" where
  "pointer_in_file n addr_virt =
     (let off = addr_virt - BASE_ADDR in \<not> (off < 0 \<or> off + 4 > int n))"

definition slot :: "int \<Rightarrow> nat \<Rightarrow> bool" where
  "slot addr_virt i = (addr_virt - BASE_ADDR \<le> int i \<and> int i < addr_virt - BASE_ADDR + 4)"

text \<open>
  The two outcomes the specification allows for an entry: applied completely (the payload
  written at the old end of the image and every pointer of the row holding the new
  address), or skipped with the image unchanged.
\<close>

definition fully_applied :: "state \<Rightarrow> row \<Rightarrow> state \<Rightarrow> bool" where
  "fully_applied st r st' =
     (drop (length (st_data st)) (st_data st') = block r \<and>
      (\<forall>p \<in> set (row_pointer_offsets r).
         py_slice (st_data st') (p - BASE_ADDR) (p - BASE_ADDR + 4) = le32 (new_addr st)))"

definition skipped_unchanged :: "state \<Rightarrow> state \<Rightarrow> bool" where
  "skipped_unchanged st st' = (st_data st' = st_data st)"

section \<open>The pointer table and the extraction of strings\<close>

text \<open>
  \<^verbatim>\<open>src/scripts/extract_from_pointer.py\<close>, with the constants of the script;
  \<^verbatim>\<open>BASE_ADDR\<close> is the same \<open>0x100000\<close> as in the injector.
\<close>

definition PATCH_START :: int where
  "PATCH_START = 0x949720"

definition PATCH_END :: int where
  "PATCH_END = 0xB51CD0"

text \<open>\<^verbatim>\<open>SEP_BYTES = {b'\x00\x00', b'\xff\xff'}\<close>\<close>

definition is_separator :: "byte list \<Rightarrow> bool" where
  "is_separator pair = (pair = [0x00, 0x00] \<or> pair = [0xFF, 0xFF])"

text \<open>
  \<^verbatim>\<open>strip_trailing_separators\<close>: the loop takes separator pairs off the end of the chunk
  (\<^verbatim>\<open>chunk[-2:]\<close>, \<^verbatim>\<open>chunk[:-2]\<close>) and puts them in front of \<open>sep\<close>.
\<close>

function strip_loop :: "byte list \<Rightarrow> byte list \<Rightarrow> byte list \<times> byte list" where
  "strip_loop chunk sep =
     (if length chunk \<ge> 2 \<and> is_separator (py_slice_from chunk (-2))
      then strip_loop (py_slice chunk 0 (-2)) (py_slice_from chunk (-2) @ sep)
      else (chunk, sep))"
  by pat_completeness auto
termination
  by (relation "measure (\<lambda>(chunk, sep). length chunk)")
     (auto simp: py_slice_def py_index_def Let_def)

declare strip_loop.simps [simp del]

definition strip_trailing_separators :: "byte list \<Rightarrow> byte list \<times> byte list" where
  "strip_trailing_separators chunk = strip_loop chunk []"

text \<open>
  \<^verbatim>\<open>text.replace('\n', '\<dagger>')\<close> (the dagger is \<open>U+2020\<close>) and \<^verbatim>\<open>.rstrip('\x00')\<close>.
\<close>

definition escape_newlines :: "py_str \<Rightarrow> py_str" where
  "escape_newlines s = map (\<lambda>c. if c = 0x0A then 0x2020 else c) s"

definition rstrip_nul :: "py_str \<Rightarrow> py_str" where
  "rstrip_nul s = rev (dropWhile (\<lambda>c. c = 0) (rev s))"

text \<open>
  \<^verbatim>\<open>load_and_group_pointers\<close>. A row of the CSV file is \<open>Some (off, val)\<close> when it has two
  fields that \<^verbatim>\<open>int(., 16)\<close> reads, and \<open>None\<close> when the loop skips it (fewer than two
  fields, the header, or a \<^verbatim>\<open>ValueError\<close>, which the loop catches). The dictionary keeps
  the order of insertion, so it is a list of pairs; \<^verbatim>\<open>setdefault(val, []).append(off)\<close>
  adds to the group of \<open>val\<close> or opens one at the end. The function has no
  \<^verbatim>\<open>raise\<close> and returns the groups sorted by key, each group sorted.
  \<open>load_and_group_pointers\<close> is the function on the rows the reader has delivered;
  \<open>load_and_group_pointers_file\<close> below is the function on the file.
\<close>

type_synonym ptr_map = "(int \<times> int list) list"

fun setdefault_append :: "ptr_map \<Rightarrow> int \<Rightarrow> int \<Rightarrow> ptr_map" where
  "setdefault_append [] k v = [(k, [v])]"
| "setdefault_append ((k', vs) # m) k v =
     (if k' = k then (k', vs @ [v]) # m else (k', vs) # setdefault_append m k v)"

fun group_rows :: "(int \<times> int) option list \<Rightarrow> ptr_map \<Rightarrow> ptr_map" where
  "group_rows [] m = m"
| "group_rows (None # rows) m = group_rows rows m"
| "group_rows (Some (off, val) # rows) m =
     (if PATCH_START \<le> val \<and> val < PATCH_END
      then group_rows rows (setdefault_append m val off)
      else group_rows rows m)"

definition load_and_group_pointers :: "(int \<times> int) option list \<Rightarrow> ptr_map" where
  "load_and_group_pointers rows =
     map (\<lambda>(k, v). (k, sort v)) (sort_key fst (group_rows rows []))"

text \<open>
  Lines 34 to 36, around the rows: opening the file raises an \<^verbatim>\<open>OSError\<close> when it cannot
  be opened, and each step of the reader delivers a row or raises (a
  \<^verbatim>\<open>UnicodeDecodeError\<close> on bytes that are not UTF-8, a \<^verbatim>\<open>csv.Error\<close>). The script
  catches none of these, so the function then returns no table. A file is \<open>Inl e\<close> when
  it cannot be opened and \<open>Inr items\<close> otherwise, \<open>items\<close> being what the steps of the
  reader do.
\<close>

datatype read_error = OSError | UnicodeDecodeError | CsvError

datatype csv_item = Delivers "(int \<times> int) option" | Raises read_error

fun read_rows :: "csv_item list \<Rightarrow> read_error + (int \<times> int) option list" where
  "read_rows [] = Inr []"
| "read_rows (Raises e # items) = Inl e"
| "read_rows (Delivers r # items) =
     (case read_rows items of
        Inl e \<Rightarrow> Inl e
      | Inr rows \<Rightarrow> Inr (r # rows))"

definition load_and_group_pointers_file ::
  "read_error + csv_item list \<Rightarrow> read_error + ptr_map" where
  "load_and_group_pointers_file csv_file =
     (case csv_file of
        Inl e \<Rightarrow> Inl e
      | Inr items \<Rightarrow>
          (case read_rows items of
             Inl e \<Rightarrow> Inl e
           | Inr rows \<Rightarrow> Inr (load_and_group_pointers rows)))"

text \<open>
  The first loop of \<^verbatim>\<open>extract_strings\<close>. \<^verbatim>\<open>data[fo:fo+2].decode('utf-16le')\<close> is strict
  and its input has at most two bytes: no byte decodes to the empty string, one byte and a
  surrogate unit raise (and the target is skipped). \<^verbatim>\<open>str.isprintable\<close> holds when every
  character is printable, so it holds for the empty string; which characters are
  printable is Python's table, a parameter here.
\<close>

definition decode_strict :: "byte list \<Rightarrow> py_str option" where
  "decode_strict bs =
     (case bs of
        [] \<Rightarrow> Some []
      | [lo, hi] \<Rightarrow> (let u = unit_of lo hi in if is_surrogate u then None else Some [u])
      | _ \<Rightarrow> None)"

definition is_valid :: "(nat \<Rightarrow> bool) \<Rightarrow> byte list \<Rightarrow> int \<Rightarrow> bool" where
  "is_valid printable data val =
     (let fo = val - BASE_ADDR in
      if fo < 2 \<or> \<not> is_separator (py_slice data (fo - 2) fo) then False
      else (case decode_strict (py_slice data fo (fo + 2)) of
              None \<Rightarrow> False
            | Some ch \<Rightarrow> list_all printable ch))"

definition valid_vals :: "(nat \<Rightarrow> bool) \<Rightarrow> byte list \<Rightarrow> ptr_map \<Rightarrow> int list" where
  "valid_vals printable data ptr_map = filter (is_valid printable data) (map fst ptr_map)"

text \<open>
  The second loop: \<^verbatim>\<open>start\<close> and \<^verbatim>\<open>end\<close> of every valid target, the end being the next
  valid target or \<^verbatim>\<open>PATCH_END\<close>, as file offsets.
\<close>

fun extents :: "int list \<Rightarrow> (int \<times> int) list" where
  "extents [] = []"
| "extents [val] = [(val - BASE_ADDR, PATCH_END - BASE_ADDR)]"
| "extents (val # nxt # rest) = (val - BASE_ADDR, nxt - BASE_ADDR) # extents (nxt # rest)"

text \<open>
  A row of the result, before it is formatted for the CSV file. \<^verbatim>\<open>ptr_map[val]\<close> cannot
  fail, the valid targets being keys of the dictionary. The decoder with
  \<^verbatim>\<open>errors='ignore'\<close> never raises, so every valid target gives a row.
\<close>

record string_record =
  rec_pointer_offsets :: "int list"
  rec_pointer_value :: int
  rec_separators :: "byte list"
  rec_extract :: py_str

definition lookup :: "ptr_map \<Rightarrow> int \<Rightarrow> int list" where
  "lookup ptr_map val = (case map_of ptr_map val of Some offs \<Rightarrow> offs | None \<Rightarrow> [])"

definition make_record :: "byte list \<Rightarrow> ptr_map \<Rightarrow> int \<Rightarrow> int \<times> int \<Rightarrow> string_record" where
  "make_record data ptr_map val ext =
     (let raw = py_slice data (fst ext) (snd ext);
          (main_chunk, sep_bytes) = strip_trailing_separators raw;
          str = rstrip_nul (decode_utf16le main_chunk)
      in \<lparr>rec_pointer_offsets = lookup ptr_map val, rec_pointer_value = val,
          rec_separators = sep_bytes, rec_extract = escape_newlines str\<rparr>)"

definition extract_strings ::
  "(nat \<Rightarrow> bool) \<Rightarrow> byte list \<Rightarrow> (int \<times> int) option list \<Rightarrow> string_record list" where
  "extract_strings printable data rows =
     (let ptr_map = load_and_group_pointers rows;
          vals = valid_vals printable data ptr_map
      in map (\<lambda>(val, ext). make_record data ptr_map val ext) (zip vals (extents vals)))"

text \<open>\<^verbatim>\<open>str.isprintable\<close> on the ASCII range, for the examples.\<close>

definition printable_ascii :: "nat \<Rightarrow> bool" where
  "printable_ascii c = (0x20 \<le> c \<and> c \<le> 0x7E)"

text \<open>
  What the specification asks of the extents: \<open>chain lo hi xs\<close> holds when the ranges
  \<open>xs\<close> are not empty and tile \<open>[lo, hi)\<close> from left to right.
\<close>

fun chain :: "int \<Rightarrow> int \<Rightarrow> (int \<times> int) list \<Rightarrow> bool" where
  "chain lo hi [] = (lo = hi)"
| "chain lo hi ((s, e) # rest) = (s = lo \<and> s < e \<and> chain e hi rest)"

text \<open>
  The filter of line 45; the pointer locations a list of rows gives for a target, in the
  order of the rows; and the targets in the region that occur in the rows.
\<close>

definition in_region :: "int \<Rightarrow> bool" where
  "in_region val = (PATCH_START \<le> val \<and> val < PATCH_END)"

fun offsets_of :: "(int \<times> int) option list \<Rightarrow> int \<Rightarrow> int list" where
  "offsets_of [] k = []"
| "offsets_of (None # rows) k = offsets_of rows k"
| "offsets_of (Some (off, val) # rows) k =
     (if val = k then off # offsets_of rows k else offsets_of rows k)"

definition targets :: "(int \<times> int) option list \<Rightarrow> int set" where
  "targets rows = {val. in_region val \<and> (\<exists>off. Some (off, val) \<in> set rows)}"

section \<open>Properties of slices\<close>

lemma py_index_nonneg: "0 \<le> i \<Longrightarrow> py_index n i = min n (nat i)"
  by (simp add: py_index_def)

lemma py_slice_nonneg:
  "0 \<le> a \<Longrightarrow> 0 \<le> b \<Longrightarrow> py_slice xs a b = take (nat b - nat a) (drop (nat a) xs)"
  by (auto simp: py_slice_def py_index_def Let_def min_def)

lemma py_slice_from_nonneg: "0 \<le> a \<Longrightarrow> py_slice_from xs a = drop (nat a) xs"
  by (simp add: py_slice_from_def py_index_def min_def)

lemma py_slice_assign_inside:
  "0 \<le> a \<Longrightarrow> a \<le> b \<Longrightarrow> nat b \<le> length xs \<Longrightarrow>
   py_slice_assign xs a b ys = take (nat a) xs @ ys @ drop (nat b) xs"
  by (auto simp: py_slice_assign_def py_index_def Let_def min_def max_def)

lemma length_le32: "length (le32 v) = 4"
  by (simp add: le32_def)

lemma py_slice_assign_nonneg:
  "0 \<le> a \<Longrightarrow> a \<le> b \<Longrightarrow> py_slice_assign xs a b ys = take (nat a) xs @ ys @ drop (nat b) xs"
  by (auto simp: py_slice_assign_def py_index_def Let_def min_def max_def)

section \<open>The extended-header patcher: page rounding and the fields written\<close>

lemma and_not_mask_int: "(k::int) AND NOT (mask n) = push_bit n (drop_bit n k)"
  by (rule bit_eqI) (auto simp: bit_simps)

lemma round_up_div: "round_up_0x1000 v = (v + 0xFFF) div 0x1000 * 0x1000"
proof -
  have m: "(0xFFF::int) = mask 12" by (simp add: mask_eq_exp_minus_1)
  show ?thesis
    unfolding round_up_0x1000_def m and_not_mask_int
    by (simp add: push_bit_eq_mult drop_bit_eq_div)
qed

lemma round_up_sub: "round_up_0x1000 v = v + 0xFFF - (v + 0xFFF) mod 0x1000"
  unfolding round_up_div by (simp add: minus_mod_eq_div_mult)

lemma round_up_ge: "v \<le> round_up_0x1000 v"
proof -
  have "(v + 0xFFF) mod 0x1000 < 0x1000" by simp
  then show ?thesis unfolding round_up_sub by linarith
qed

lemma round_up_mod: "round_up_0x1000 v mod 0x1000 = 0"
  unfolding round_up_div by simp

lemma round_up_lt: "round_up_0x1000 v < v + 0x1000"
proof -
  have "0 \<le> (v + 0xFFF) mod 0x1000" by simp
  then show ?thesis unfolding round_up_sub by linarith
qed

lemma code_size_ge: "int size_patched \<le> code_size size_patched"
  by (simp add: code_size_def round_up_ge)

lemma new_data_size_nonneg:
  "size_padded \<le> size_patched \<Longrightarrow> 0 \<le> new_data_size size_padded size_patched"
proof -
  assume "size_padded \<le> size_patched"
  then have "0 \<le> raw_new_data_size size_padded size_patched"
    by (simp add: raw_new_data_size_def delta_def base_data_size_def)
  also have "\<dots> \<le> new_data_size size_padded size_patched"
    by (simp add: new_data_size_def round_up_ge)
  finally show ?thesis .
qed

lemma pages_nonneg:
  "0 \<le> new_data_size size_padded size_patched \<Longrightarrow> 0 \<le> pages size_padded size_patched"
  by (simp add: pages_def)

lemma pages_le:
  "0 \<le> new_data_size size_padded size_patched \<Longrightarrow>
   pages size_padded size_patched \<le> new_data_size size_padded size_patched"
proof -
  assume a: "0 \<le> new_data_size size_padded size_patched"
  have "new_data_size size_padded size_patched =
        pages size_padded size_patched * 0x1000 + new_data_size size_padded size_patched mod 0x1000"
    by (simp add: pages_def)
  moreover have "0 \<le> new_data_size size_padded size_patched mod 0x1000" by simp
  moreover have "0 \<le> pages size_padded size_patched" using a by (simp add: pages_def)
  ultimately show ?thesis by linarith
qed

text \<open>When every value fits its field, the four writes happen, in this order.\<close>

lemma write_fields_Inr:
  assumes "0 \<le> code_size sq" "code_size sq < 2 ^ 32"
      "0 \<le> new_data_size sp sq" "new_data_size sp sq < 2 ^ 32"
  shows "write_fields ex sp sq =
     Inr (py_slice_assign
                (py_slice_assign
                  (py_slice_assign
                    (py_slice_assign ex 0x00 0x04 (le32 (code_size sq)))
                    0x08 0x0C [0,0,0,0])
                  0x0C 0x10 (le32 (new_data_size sp sq)))
                0x34 0x38 (le32 (pages sp sq)))"
proof -
  have "0 \<le> pages sp sq" "pages sp sq < 2 ^ 32"
    using assms pages_nonneg [of sp sq] pages_le [of sp sq] by auto
  with assms show ?thesis
    by (simp add: write_fields_def pack_u32_def le32_def)
qed

text \<open>Whenever a header comes out, it is the input with these four writes.\<close>

lemma write_fields_cases:
  "write_fields ex sp sq = Inr ex' \<Longrightarrow>
   ex' = py_slice_assign
                (py_slice_assign
                  (py_slice_assign
                    (py_slice_assign ex 0x00 0x04 (le32 (code_size sq)))
                    0x08 0x0C [0,0,0,0])
                  0x0C 0x10 (le32 (new_data_size sp sq)))
                0x34 0x38 (le32 (pages sp sq))"
  by (auto simp: write_fields_def pack_u32_def le32_def split: if_splits sum.splits)

lemma fields_long:
  assumes "0x38 \<le> length ex" "length b0 = 4" "length b8 = 4" "length bC = 4" "length b34 = 4"
  defines "ex' \<equiv> py_slice_assign
                (py_slice_assign
                  (py_slice_assign
                    (py_slice_assign ex 0x00 0x04 b0)
                    0x08 0x0C b8)
                  0x0C 0x10 bC)
                0x34 0x38 b34"
  shows "length ex' = length ex" "py_slice ex' 0x00 0x04 = b0" "py_slice ex' 0x08 0x0C = b8"
     "py_slice ex' 0x0C 0x10 = bC" "py_slice ex' 0x34 0x38 = b34"
  using assms by (simp_all add: py_slice_assign_inside py_slice_nonneg)

text \<open>
  A header of at least 8 bytes is enough for the second write to land at offset 8: a
  slice past the end of a bytearray appends.
\<close>

lemma field8_short:
  assumes "8 \<le> length ex" "length b0 = 4" "length b8 = 4" "length bC = 4" "length b34 = 4"
  shows "py_slice (py_slice_assign
                (py_slice_assign
                  (py_slice_assign
                    (py_slice_assign ex 0x00 0x04 b0)
                    0x08 0x0C b8)
                  0x0C 0x10 bC)
                0x34 0x38 b34) 0x08 0x0C = b8"
proof -
  define x1 where "x1 = py_slice_assign ex 0x00 0x04 b0"
  define x2 where "x2 = py_slice_assign x1 0x08 0x0C b8"
  define x3 where "x3 = py_slice_assign x2 0x0C 0x10 bC"
  have l1: "length x1 = length ex"
    using assms by (simp add: x1_def py_slice_assign_nonneg)
  have x2: "x2 = take 8 x1 @ b8 @ drop 12 x1"
    by (simp add: x2_def py_slice_assign_nonneg)
  have t2: "take 12 x2 = take 8 x1 @ b8"
    using assms l1 by (simp add: x2)
  have x3: "x3 = take 8 x1 @ b8 @ bC @ drop 16 x2"
    by (simp add: x3_def py_slice_assign_nonneg t2)
  have "py_slice (py_slice_assign x3 0x34 0x38 b34) 0x08 0x0C = b8"
    using assms l1 by (simp add: py_slice_assign_nonneg py_slice_nonneg x3)
  then show ?thesis by (simp add: x1_def x2_def x3_def)
qed

text \<open>
  C4, amended. The patched image is \<open>size_patched\<close> bytes long, the original one
  \<open>size_padded\<close>, and \<open>delta\<close> is their difference. The new code size is computed from the
  length of the patched image alone; the code-size field the header holds is not read. For
  a non-negative \<open>delta\<close> the new code size is at least the length of the original image
  plus \<open>delta\<close>, less than a page above it, and a multiple of the page size \<open>0x1000\<close>;
  the page count times the page size is the new data size; and when the header has its
  \<open>0x38\<close> bytes and the sizes fit 32 bits, both patchers return the same header, of the
  same length, whose fields at \<open>0x00\<close>, \<open>0x0C\<close> and \<open>0x34\<close> hold the new code size, the
  new data size and the new data size divided by the page size, whatever the header held
  there.
\<close>

theorem header_patch_sizes:
  assumes "size_padded \<le> size_patched"
  shows "int size_padded + delta size_padded size_patched \<le> code_size size_patched \<and>
         code_size size_patched < int size_padded + delta size_padded size_patched + 0x1000 \<and>
         code_size size_patched mod 0x1000 = 0 \<and>
         pages size_padded size_patched * 0x1000 = new_data_size size_padded size_patched \<and>
         (0x38 \<le> length ex \<and> code_size size_patched < 2 ^ 32 \<and>
          new_data_size size_padded size_patched < 2 ^ 32 \<longrightarrow>
            (\<exists>ex'. patch_exheader ex size_padded size_patched = Inr ex' \<and>
                   patch_exheader_fixed ex size_padded size_patched = Inr ex' \<and>
                   length ex' = length ex \<and>
                   py_slice ex' 0x00 0x04 = le32 (code_size size_patched) \<and>
                   py_slice ex' 0x0C 0x10 = le32 (new_data_size size_padded size_patched) \<and>
                   py_slice ex' 0x34 0x38 = le32 (new_data_size size_padded size_patched div 0x1000)))"
proof (intro conjI impI)
  show "int size_padded + delta size_padded size_patched \<le> code_size size_patched"
    using code_size_ge [of size_patched] by (simp add: delta_def)
  show "code_size size_patched < int size_padded + delta size_padded size_patched + 0x1000"
    using round_up_lt [of "int size_patched"] by (simp add: delta_def code_size_def)
  show "code_size size_patched mod 0x1000 = 0"
    by (simp add: code_size_def round_up_mod)
  have "new_data_size size_padded size_patched mod 0x1000 = 0"
    by (simp add: new_data_size_def round_up_mod)
  then show "pages size_padded size_patched * 0x1000 = new_data_size size_padded size_patched"
    unfolding pages_def by (simp add: mod_0_imp_dvd)
next
  assume b: "0x38 \<le> length ex \<and> code_size size_patched < 2 ^ 32 \<and>
          new_data_size size_padded size_patched < 2 ^ 32"
  have c0: "0 \<le> code_size size_patched"
    using code_size_ge [of size_patched] by linarith
  note w = write_fields_Inr [OF c0 _ new_data_size_nonneg [OF assms], of ex]
  define ex' where "ex' = py_slice_assign
                (py_slice_assign
                  (py_slice_assign
                    (py_slice_assign ex 0x00 0x04 (le32 (code_size size_patched)))
                    0x08 0x0C [0,0,0,0])
                  0x0C 0x10 (le32 (new_data_size size_padded size_patched)))
                0x34 0x38 (le32 (pages size_padded size_patched))"
  have e: "write_fields ex size_padded size_patched = Inr ex'"
    using w b by (simp add: ex'_def)
  have f: "length ex' = length ex" "py_slice ex' 0x00 0x04 = le32 (code_size size_patched)"
     "py_slice ex' 0x0C 0x10 = le32 (new_data_size size_padded size_patched)"
     "py_slice ex' 0x34 0x38 = le32 (pages size_padded size_patched)"
    unfolding ex'_def using b by (simp_all add: fields_long length_le32)
  show "\<exists>ex'. patch_exheader ex size_padded size_patched = Inr ex' \<and>
                   patch_exheader_fixed ex size_padded size_patched = Inr ex' \<and>
                   length ex' = length ex \<and>
                   py_slice ex' 0x00 0x04 = le32 (code_size size_patched) \<and>
                   py_slice ex' 0x0C 0x10 = le32 (new_data_size size_padded size_patched) \<and>
                   py_slice ex' 0x34 0x38 = le32 (new_data_size size_padded size_patched div 0x1000)"
    using e f b
    by (intro exI [of _ ex']) (simp add: patch_exheader_def patch_exheader_fixed_def pages_def)
qed

text \<open>
  An original image of 100 bytes grown to 5000 bytes, with a header of \<open>0x38\<close> bytes: the
  code size is \<open>0x2000\<close>, the data size \<open>0x39F000\<close>, the page count \<open>0x39F\<close>.
\<close>

theorem header_patch_sizes_witness:
  "(100::nat) \<le> 5000 \<and> int 100 + delta 100 5000 \<le> code_size 5000 \<and> code_size 5000 = 0x2000 \<and>
   new_data_size 100 5000 = 0x39F000 \<and>
   (\<exists>ex'. patch_exheader (replicate 0x38 0xAA) 100 5000 = Inr ex' \<and>
          py_slice ex' 0x34 0x38 = [0x9F, 0x03, 0, 0])"
proof -
  have h: "(100::nat) \<le> 5000" by simp
  have c: "code_size 5000 = 0x2000" by (simp add: code_size_def round_up_0x1000_def)
  have n: "new_data_size 100 5000 = 0x39F000"
    by (simp add: new_data_size_def raw_new_data_size_def delta_def base_data_size_def
        round_up_0x1000_def)
  show ?thesis
    using header_patch_sizes [OF h, of "replicate 0x38 0xAA"] c n
    by (auto simp: le32_def)
qed

text \<open>
  C4, as stated, fails when the original code size is the one the header holds: a header
  whose code-size field is \<open>0xA52000\<close>, and an image grown from 100 to 5000 bytes. Both
  patchers write \<open>0x2000\<close> into the field, which is less than \<open>0xA52000\<close> plus the growth
  of 4900 bytes.
\<close>

theorem header_code_size_counterexample:
  "py_slice ([0x00, 0x20, 0xA5, 0x00] @ replicate 0x34 (0xAA :: byte)) 0x00 0x04 = le32 0xA52000 \<and>
   patch_exheader ([0x00, 0x20, 0xA5, 0x00] @ replicate 0x34 0xAA) 100 5000 =
     Inr ([0, 0x20, 0, 0] @ replicate 4 0xAA @ [0, 0, 0, 0] @ [0, 0xF0, 0x39, 0]
          @ replicate 36 0xAA @ [0x9F, 0x03, 0, 0]) \<and>
   patch_exheader_fixed ([0x00, 0x20, 0xA5, 0x00] @ replicate 0x34 0xAA) 100 5000 =
     Inr ([0, 0x20, 0, 0] @ replicate 4 0xAA @ [0, 0, 0, 0] @ [0, 0xF0, 0x39, 0]
          @ replicate 36 0xAA @ [0x9F, 0x03, 0, 0]) \<and>
   py_slice ([0, 0x20, 0, 0] @ replicate 4 0xAA @ [0, 0, 0, 0] @ [0, 0xF0, 0x39, 0]
          @ replicate 36 0xAA @ [0x9F, 0x03, 0, 0 :: byte]) 0x00 0x04 = le32 0x2000 \<and>
   delta 100 5000 = 4900 \<and>
   \<not> (0xA52000 + delta 100 5000 \<le> (0x2000 :: int))"
proof -
  have c: "code_size 5000 = 0x2000" by (simp add: code_size_def round_up_0x1000_def)
  have n: "new_data_size 100 5000 = 0x39F000"
    by (simp add: new_data_size_def raw_new_data_size_def delta_def base_data_size_def
        round_up_0x1000_def)
  have w: "write_fields ([0x00, 0x20, 0xA5, 0x00] @ replicate 0x34 0xAA) 100 5000 =
     Inr ([0, 0x20, 0, 0] @ replicate 4 0xAA @ [0, 0, 0, 0] @ [0, 0xF0, 0x39, 0]
          @ replicate 36 0xAA @ [0x9F, 0x03, 0, 0])"
    by (simp add: write_fields_def pack_u32_def c n pages_def le32_def
        py_slice_assign_nonneg replicate_add [symmetric])
  show ?thesis
    using w by (simp add: patch_exheader_def patch_exheader_fixed_def py_slice_nonneg le32_def
        delta_def)
qed

text \<open>
  C10. Whenever a patcher returns a header, the four bytes at offset \<open>0x08\<close> of that header
  are zero, whatever the input header held there and whatever the two file sizes are.
  (The first script does not check the header's length; 8 bytes are enough for the write
  to land at offset 8. The second one refuses a header shorter than \<open>0x38\<close> bytes.)
\<close>

theorem ro_size_field_zero:
  "(patch_exheader ex size_padded size_patched = Inr ex' \<and> 8 \<le> length ex
      \<longrightarrow> py_slice ex' 0x08 0x0C = [0, 0, 0, 0]) \<and>
   (patch_exheader_fixed ex size_padded size_patched = Inr ex'
      \<longrightarrow> py_slice ex' 0x08 0x0C = [0, 0, 0, 0])"
proof (intro conjI impI)
  assume a: "patch_exheader ex size_padded size_patched = Inr ex' \<and> 8 \<le> length ex"
  then show "py_slice ex' 0x08 0x0C = [0, 0, 0, 0]"
    using write_fields_cases [of ex size_padded size_patched ex']
    by (simp add: patch_exheader_def field8_short length_le32)
next
  assume a: "patch_exheader_fixed ex size_padded size_patched = Inr ex'"
  then have "0x38 \<le> length ex" "write_fields ex size_padded size_patched = Inr ex'"
    by (auto simp: patch_exheader_fixed_def split: if_splits)
  then show "py_slice ex' 0x08 0x0C = [0, 0, 0, 0]"
    using write_fields_cases [of ex size_padded size_patched ex']
    by (simp add: field8_short length_le32)
qed

text \<open>
  A header of \<open>0x38\<close> bytes \<open>0xAA\<close>, an image grown from 100 to 5000 bytes: both patchers
  return the header below, with zeros at offsets 8 to 11.
\<close>

theorem ro_size_field_zero_witness:
  "patch_exheader (replicate 0x38 0xAA) 100 5000 =
     Inr ([0, 0x20, 0, 0] @ replicate 4 0xAA @ [0, 0, 0, 0] @ [0, 0xF0, 0x39, 0]
          @ replicate 36 0xAA @ [0x9F, 0x03, 0, 0]) \<and>
   patch_exheader_fixed (replicate 0x38 0xAA) 100 5000 =
     Inr ([0, 0x20, 0, 0] @ replicate 4 0xAA @ [0, 0, 0, 0] @ [0, 0xF0, 0x39, 0]
          @ replicate 36 0xAA @ [0x9F, 0x03, 0, 0]) \<and>
   (8::nat) \<le> length (replicate 0x38 (0xAA::byte)) \<and>
   py_slice ([0, 0x20, 0, 0] @ replicate 4 0xAA @ [0, 0, 0, 0] @ [0, 0xF0, 0x39, 0]
          @ replicate 36 0xAA @ [0x9F, 0x03, 0, 0]) 0x08 0x0C = [0, 0, 0, 0 :: byte]"
proof -
  have c: "code_size 5000 = 0x2000" by (simp add: code_size_def round_up_0x1000_def)
  have n: "new_data_size 100 5000 = 0x39F000"
    by (simp add: new_data_size_def raw_new_data_size_def delta_def base_data_size_def
        round_up_0x1000_def)
  have w: "write_fields (replicate 0x38 0xAA) 100 5000 =
     Inr ([0, 0x20, 0, 0] @ replicate 4 0xAA @ [0, 0, 0, 0] @ [0, 0xF0, 0x39, 0]
          @ replicate 36 0xAA @ [0x9F, 0x03, 0, 0])"
    by (simp add: write_fields_def pack_u32_def c n pages_def le32_def
        py_slice_assign_nonneg replicate_add [symmetric])
  then have p: "patch_exheader (replicate 0x38 0xAA) 100 5000 =
     Inr ([0, 0x20, 0, 0] @ replicate 4 0xAA @ [0, 0, 0, 0] @ [0, 0xF0, 0x39, 0]
          @ replicate 36 0xAA @ [0x9F, 0x03, 0, 0])"
    by (simp add: patch_exheader_def)
  have q: "patch_exheader_fixed (replicate 0x38 0xAA) 100 5000 =
     Inr ([0, 0x20, 0, 0] @ replicate 4 0xAA @ [0, 0, 0, 0] @ [0, 0xF0, 0x39, 0]
          @ replicate 36 0xAA @ [0x9F, 0x03, 0, 0])"
    using w by (simp add: patch_exheader_fixed_def)
  show ?thesis
    using ro_size_field_zero [of "replicate 0x38 0xAA" 100 5000
      "[0, 0x20, 0, 0] @ replicate 4 0xAA @ [0, 0, 0, 0] @ [0, 0xF0, 0x39, 0]
          @ replicate 36 0xAA @ [0x9F, 0x03, 0, 0]"] p q
    by simp
qed


section \<open>The codec: round trip\<close>

lemma decode_unit:
  "u < 0x10000 \<Longrightarrow> \<not> is_surrogate u \<Longrightarrow> decode_utf16le (unit_bytes u @ bs) = u # decode_utf16le bs"
  by (simp add: unit_bytes_def unit_of_def unat_of_nat)

text \<open>
  C7. A string whose code points are all below \<open>0x10000\<close> and not surrogates (each is one
  2-byte unit) is encoded without error, into two bytes per code point, and decoding
  these bytes gives the string back.
\<close>

theorem utf16le_round_trip:
  assumes "\<forall>c \<in> set str. c < 0x10000 \<and> \<not> is_surrogate c"
  shows "\<exists>bs. encode_utf16le str = Inr bs \<and> length bs = 2 * length str \<and> decode_utf16le bs = str"
  using assms
proof (induction str)
  case Nil
  then show ?case by simp
next
  case (Cons c cs)
  then obtain bs where bs: "encode_utf16le cs = Inr bs" "length bs = 2 * length cs"
      "decode_utf16le bs = cs"
    by auto
  from Cons.prems have c: "c < 0x10000" "\<not> is_surrogate c" by auto
  have "encode_utf16le (c # cs) = Inr (unit_bytes c @ bs)"
    using c bs by (simp add: char_bytes_def)
  moreover have "length (unit_bytes c @ bs) = 2 * length (c # cs)"
    using bs by (simp add: unit_bytes_def)
  moreover have "decode_utf16le (unit_bytes c @ bs) = c # cs"
    using c bs by (simp add: decode_unit)
  ultimately show ?case by blast
qed

text \<open>The string \<^verbatim>\<open>"Hi"\<close> followed by the hiragana letter A (\<open>U+3042\<close>).\<close>

theorem utf16le_round_trip_witness:
  "encode_utf16le [0x48, 0x69, 0x3042] = Inr [0x48, 0x00, 0x69, 0x00, 0x42, 0x30] \<and>
   decode_utf16le [0x48, 0x00, 0x69, 0x00, 0x42, 0x30] = [0x48, 0x69, 0x3042]"
proof -
  have h: "\<forall>c \<in> set [0x48, 0x69, 0x3042]. c < (0x10000::nat) \<and> \<not> is_surrogate c"
    by (simp add: is_surrogate_def)
  have e: "encode_utf16le [0x48, 0x69, 0x3042] = Inr [0x48, 0x00, 0x69, 0x00, 0x42, 0x30]"
    by (simp add: is_surrogate_def char_bytes_def unit_bytes_def)
  show ?thesis using utf16le_round_trip [OF h] e by auto
qed

lemma encode_even: "encode_utf16le str = Inr bs \<Longrightarrow> even (length bs)"
  by (induction str arbitrary: bs)
     (auto simp: char_bytes_def unit_bytes_def split: if_splits sum.splits)

section \<open>The in-place patcher: what one replacement writes\<close>

lemma scan_end_stop: "\<not> e < int (length data) - 1 \<Longrightarrow> scan_end data e = e"
  by (subst scan_end.simps) simp

lemma scan_end_ge: "e \<le> scan_end data e"
proof (induction data e rule: scan_end.induct)
  case (1 data e)
  show ?case
    using "1" by (subst scan_end.simps) (auto split: if_splits)
qed

lemma scan_end_even: "even (scan_end data e - e)"
proof (induction data e rule: scan_end.induct)
  case (1 data e)
  show ?case
  proof (cases "e < int (length data) - 1 \<and> sep_run (py_slice data e (e + 4)) = []")
    case True
    then have "scan_end data e = scan_end data (e + 2)"
      by (subst scan_end.simps) simp
    moreover have "even (scan_end data (e + 2) - (e + 2))"
      using True "1" by simp
    ultimately show ?thesis by (simp add: algebra_simps)
  next
    case False
    then have "scan_end data e = e"
      by (subst scan_end.simps) auto
    then show ?thesis by simp
  qed
qed

lemma scan_end_le: "e < int (length data) - 1 \<Longrightarrow> scan_end data e \<le> int (length data)"
proof (induction data e rule: scan_end.induct)
  case (1 data e)
  show ?case
  proof (cases "sep_run (py_slice data e (e + 4)) = []")
    case True
    with "1.prems" have s: "scan_end data e = scan_end data (e + 2)"
      by (subst scan_end.simps) simp
    show ?thesis
    proof (cases "e + 2 < int (length data) - 1")
      case True
      then show ?thesis using "1.IH" "1.prems" \<open>sep_run (py_slice data e (e + 4)) = []\<close> s by simp
    next
      case False
      then have "scan_end data (e + 2) = e + 2" by (rule scan_end_stop)
      then show ?thesis using s "1.prems" by simp
    qed
  next
    case False
    with "1.prems" have "scan_end data e = e"
      by (subst scan_end.simps) simp
    then show ?thesis using "1.prems" by simp
  qed
qed

text \<open>
  Where the scan stops: no separator pair starts at an even distance from the offset
  before the end it finds, and a separator pair starts at that end unless fewer than two
  bytes are left there.
\<close>

lemma scan_end_first_separator:
  "(\<forall>k. e + 2 * int k < scan_end data e \<longrightarrow>
        sep_run (py_slice data (e + 2 * int k) (e + 2 * int k + 4)) = []) \<and>
   (scan_end data e < int (length data) - 1 \<longrightarrow>
        sep_run (py_slice data (scan_end data e) (scan_end data e + 4)) \<noteq> [])"
proof (induction data e rule: scan_end.induct)
  case (1 data e)
  show ?case
  proof (cases "e < int (length data) - 1 \<and> sep_run (py_slice data e (e + 4)) = []")
    case False
    then have s: "scan_end data e = e"
      by (subst scan_end.simps) auto
    show ?thesis unfolding s using False by auto
  next
    case True
    then have s: "scan_end data e = scan_end data (e + 2)"
      by (subst scan_end.simps) simp
    note IH = "1.IH" [OF conjunct1 [OF True]]
    have ih: "(\<forall>k. e + 2 + 2 * int k < scan_end data (e + 2) \<longrightarrow>
                sep_run (py_slice data (e + 2 + 2 * int k) (e + 2 + 2 * int k + 4)) = []) \<and>
              (scan_end data (e + 2) < int (length data) - 1 \<longrightarrow>
                sep_run (py_slice data (scan_end data (e + 2)) (scan_end data (e + 2) + 4)) \<noteq> [])"
      using IH True by simp
    have "sep_run (py_slice data (e + 2 * int k) (e + 2 * int k + 4)) = []"
      if "e + 2 * int k < scan_end data (e + 2)" for k
    proof (cases k)
      case 0
      then show ?thesis using True by simp
    next
      case (Suc j)
      have eq: "e + 2 * int k = e + 2 + 2 * int j" using Suc by simp
      show ?thesis
        unfolding eq using ih that [unfolded eq] by blast
    qed
    then show ?thesis unfolding s using ih by blast
  qed
qed

text \<open>The original bytes, for an offset that is not negative.\<close>

lemma original_bytes_shape:
  fixes data :: "byte list" and offset :: int
  assumes "0 \<le> offset"
  defines "ob \<equiv> fst (extract_string data offset)"
  shows "even (length ob)"
    and "snd (extract_string data offset) = offset + int (length ob)"
    and "ob = take (length ob) (drop (nat offset) data)"
    and "length ob = 0 \<or> nat offset + length ob \<le> length data"
proof -
  let ?e = "scan_end data offset"
  have ob: "ob = take (nat ?e - nat offset) (drop (nat offset) data)"
    using assms(1) scan_end_ge [of offset data]
    by (simp add: ob_def extract_string_def Let_def py_slice_nonneg)
  have ev: "even (?e - offset)" by (rule scan_end_even)
  have len: "length ob = nat (?e - offset)"
  proof (cases "offset < int (length data) - 1")
    case True
    then have "?e \<le> int (length data)" by (rule scan_end_le)
    then show ?thesis using ob assms(1) scan_end_ge [of offset data] by auto
  next
    case False
    then have "?e = offset" by (rule scan_end_stop)
    then show ?thesis using ob by simp
  qed
  show "even (length ob)"
    using ev len scan_end_ge [of offset data] by (simp add: even_nat_iff)
  show "snd (extract_string data offset) = offset + int (length ob)"
    using len scan_end_ge [of offset data] by (simp add: extract_string_def Let_def)
  show "ob = take (length ob) (drop (nat offset) data)"
    using ob len assms(1) scan_end_ge [of offset data] by (simp add: nat_diff_distrib)
  show "length ob = 0 \<or> nat offset + length ob \<le> length data"
    using ob by (cases "nat offset \<le> length data") auto
qed

lemma length_pad: "length (concat (replicate k [a, b])) = 2 * k"
  by (induction k) auto

lemma length_fit_original_size:
  "even (length tb) \<Longrightarrow> even (length ob) \<Longrightarrow> length (fit_original_size tb ob) = length ob"
  by (auto simp: fit_original_size_def Let_def length_pad elim!: evenE)

lemma sep_run_prefix: "take (length (sep_run xs)) xs = sep_run xs"
  by (induction xs rule: sep_run.induct) auto

lemma sep_run_short: "length xs < 2 \<Longrightarrow> sep_run xs = []"
  by (cases xs rule: sep_run.cases) auto

lemma patch_entry_shape:
  fixes data :: "byte list" and offset :: int
  defines "ob \<equiv> fst (extract_string data offset)"
  assumes off: "0 \<le> offset"
    and enc: "encode_utf16le (translate_text (decode_utf16le ob)) = Inr tb"
  shows "patch_entry translate_text data (offset, sz) =
         Inr (take (nat offset) data @ fit_original_size tb ob @ drop (nat offset + length ob) data)"
proof -
  let ?o = "nat offset" and ?L = "length ob"
  let ?F = "fit_original_size tb ob"
  let ?d1 = "take ?o data @ ?F @ drop (?o + ?L) data"
  note sh = original_bytes_shape [OF off, of data, folded ob_def]
  have ex: "extract_string data offset = (ob, offset + int ?L)"
    using sh(2) by (simp add: ob_def prod_eq_iff)
  have lF: "length ?F = ?L"
    using encode_even [OF enc] sh(1) by (rule length_fit_original_size)
  have d1: "py_slice_assign data offset (offset + int ?L) ?F = ?d1"
    using off by (simp add: py_slice_assign_nonneg nat_add_distrib)
  let ?sep = "sep_run (py_slice_from data (offset + int ?L))"
  have sep: "?sep = sep_run (drop (?o + ?L) data)"
    using off by (simp add: py_slice_from_nonneg nat_add_distrib)
  have noop: "py_slice_assign ?d1 (offset + int ?L) (offset + int ?L + int (length ?sep)) ?sep = ?d1"
    if ne: "?sep \<noteq> []"
  proof -
    have "\<not> length (drop (?o + ?L) data) < 2"
      using ne sep sep_run_short by metis
    then have le: "?o + ?L \<le> length data" by simp
    have t: "take (?o + ?L) ?d1 = take ?o data @ ?F"
      using le lF by simp
    have d: "drop (?o + ?L + length ?sep) ?d1 = drop (length ?sep) (drop (?o + ?L) data)"
      using le lF by simp
    have s: "?sep = take (length ?sep) (drop (?o + ?L) data)"
      using sep_run_prefix [of "drop (?o + ?L) data"] sep by simp
    have "py_slice_assign ?d1 (offset + int ?L) (offset + int ?L + int (length ?sep)) ?sep
          = take (?o + ?L) ?d1 @ ?sep @ drop (?o + ?L + length ?sep) ?d1"
      using off by (simp add: py_slice_assign_nonneg nat_add_distrib)
    also have "\<dots> = take ?o data @ ?F @ take (length ?sep) (drop (?o + ?L) data)
                      @ drop (length ?sep) (drop (?o + ?L) data)"
      unfolding t d using s by simp
    also have "\<dots> = ?d1" by (simp only: append_take_drop_id)
    finally show ?thesis .
  qed
  show ?thesis
    unfolding patch_entry_def
    using enc d1 noop by (simp add: ex Let_def)
qed

lemma patch_entry_Inr_enc:
  "patch_entry translate_text data (offset, sz) = Inr data' \<Longrightarrow>
   \<exists>tb. encode_utf16le (translate_text (decode_utf16le (fst (extract_string data offset)))) = Inr tb"
  by (auto simp: patch_entry_def Let_def split: prod.splits sum.splits)

lemma nth_spliced:
  assumes "length F = L" "L = 0 \<or> n + L \<le> length xs" "i < length xs" "i < n \<or> n + L \<le> i"
  shows "(take n xs @ F @ drop (n + L) xs) ! i = xs ! i"
proof (cases "i < n")
  case True
  then show ?thesis using assms by (simp add: nth_append)
next
  case False
  then have "n + L \<le> i" "n \<le> length xs" using assms by auto
  then show ?thesis using assms False by (auto simp: nth_append)
qed

lemma length_spliced:
  assumes "length F = L" "L = 0 \<or> n + L \<le> length xs"
  shows "length (take n xs @ F @ drop (n + L) xs) = length xs"
  using assms by auto

lemma patch_entry_length:
  assumes "0 \<le> offset"
    and "patch_entry translate_text data (offset, sz) = Inr data'"
  shows "length data' = length data"
proof -
  define ob where "ob = fst (extract_string data offset)"
  obtain tb where enc: "encode_utf16le (translate_text (decode_utf16le ob)) = Inr tb"
    using patch_entry_Inr_enc [OF assms(2)] by (auto simp: ob_def)
  note sh = original_bytes_shape [OF assms(1), of data, folded ob_def]
  have lF: "length (fit_original_size tb ob) = length ob"
    using encode_even [OF enc] sh(1) by (rule length_fit_original_size)
  have "patch_entry translate_text data (offset, sz) =
          Inr (take (nat offset) data @ fit_original_size tb ob
               @ drop (nat offset + length ob) data)"
    using assms(1) enc unfolding ob_def by (rule patch_entry_shape)
  then have d': "data' = take (nat offset) data @ fit_original_size tb ob
                    @ drop (nat offset + length ob) data"
    using assms(2) by simp
  show ?thesis
    unfolding d' using lF sh(4) by (rule length_spliced)
qed

text \<open>A whole run keeps the length, when no offset is negative.\<close>

lemma patch_binary_length:
  "patch_binary translate_text data pointers = Inr data' \<Longrightarrow>
   \<forall>p \<in> set pointers. 0 \<le> fst p \<Longrightarrow> length data' = length data"
proof (induction pointers arbitrary: data)
  case Nil
  then show ?case by simp
next
  case (Cons p ps)
  obtain offset sz where p: "p = (offset, sz)" by (cases p)
  from Cons.prems(1) obtain d1 where d1: "patch_entry translate_text data (offset, sz) = Inr d1"
      "patch_binary translate_text d1 ps = Inr data'"
    by (auto simp: p split: sum.splits)
  have "length d1 = length data"
    using patch_entry_length [of offset translate_text data sz d1] d1(1) Cons.prems(2) p by simp
  moreover have "length data' = length d1"
    using Cons.IH [OF d1(2)] Cons.prems(2) by simp
  ultimately show ?case by simp
qed

text \<open>
  The running example: two bytes, the string \<^verbatim>\<open>"Hello"\<close> (10 bytes), the separator
  \<open>00 00 FF FF\<close> and the unit \<^verbatim>\<open>"A"\<close>. The string at offset 2 ends at offset 12.
\<close>

lemma example_extract:
  "extract_string [1,2,0x48,0,0x65,0,0x6C,0,0x6C,0,0x6F,0,0,0,0xFF,0xFF,0x41,0] 2
   = ([0x48,0,0x65,0,0x6C,0,0x6C,0,0x6F,0], 12)"
  by (simp add: extract_string_def scan_end.simps py_slice_nonneg is_sep_pair_def)

text \<open>Replaced by \<^verbatim>\<open>"Bonjour"\<close> (14 bytes), cut to \<^verbatim>\<open>"Bonjo"\<close>.\<close>

lemma example_truncate:
  "patch_entry (\<lambda>_. [0x42,0x6F,0x6E,0x6A,0x6F,0x75,0x72])
     [1,2,0x48,0,0x65,0,0x6C,0,0x6C,0,0x6F,0,0,0,0xFF,0xFF,0x41,0] (2, 10)
   = Inr [1,2,0x42,0,0x6F,0,0x6E,0,0x6A,0,0x6F,0,0,0,0xFF,0xFF,0x41,0]"
  by (simp add: patch_entry_def example_extract is_surrogate_def char_bytes_def unit_bytes_def
      fit_original_size_def py_slice_from_nonneg py_slice_assign_nonneg is_sep_pair_def)


text \<open>
  C3, amended. One in-place replacement at an offset that is not negative, when it returns
  (the translation can be encoded): the image keeps its length; every byte outside the
  string extent that the patcher scans itself, from \<open>offset\<close> to the end \<open>e\<close> that
  \<open>extract_string\<close> finds, is unchanged, the separator behind the extent included. That
  end lies at an even distance from \<open>offset\<close>; no separator pair starts at an even
  distance before it; and a separator pair starts at it, unless fewer than two bytes are
  left. The size \<open>sz\<close> given with the entry plays no part.
\<close>

theorem in_place_frame:
  fixes data :: "byte list" and offset :: int
  defines "e \<equiv> snd (extract_string data offset)"
  defines "sep_bytes \<equiv> sep_run (py_slice_from data e)"
  assumes "0 \<le> offset"
    and "patch_entry translate_text data (offset, sz) = Inr data'"
  shows "length data' = length data \<and>
         (\<forall>i < length data. int i < offset \<or> e + int (length sep_bytes) \<le> int i
              \<longrightarrow> data' ! i = data ! i) \<and>
         (\<forall>i < length data. e \<le> int i \<longrightarrow> data' ! i = data ! i) \<and>
         offset \<le> e \<and> even (e - offset) \<and>
         (\<forall>k. offset + 2 * int k < e \<longrightarrow>
              sep_run (py_slice data (offset + 2 * int k) (offset + 2 * int k + 4)) = []) \<and>
         (e < int (length data) - 1 \<longrightarrow> sep_run (py_slice data e (e + 4)) \<noteq> [])"
proof -
  define ob where "ob = fst (extract_string data offset)"
  obtain tb where enc: "encode_utf16le (translate_text (decode_utf16le ob)) = Inr tb"
    using patch_entry_Inr_enc [OF assms(4)] by (auto simp: ob_def)
  note sh = original_bytes_shape [OF assms(3), of data, folded ob_def]
  have lF: "length (fit_original_size tb ob) = length ob"
    using encode_even [OF enc] sh(1) by (rule length_fit_original_size)
  have "patch_entry translate_text data (offset, sz) =
          Inr (take (nat offset) data @ fit_original_size tb ob
               @ drop (nat offset + length ob) data)"
    using assms(3) enc unfolding ob_def by (rule patch_entry_shape)
  then have d': "data' = take (nat offset) data @ fit_original_size tb ob
                    @ drop (nat offset + length ob) data"
    using assms(4) by simp
  have e: "e = offset + int (length ob)"
    using sh(2) by (simp add: e_def)
  have len: "length data' = length data"
    unfolding d' using lF sh(4) by (rule length_spliced)
  have out: "data' ! i = data ! i" if "i < length data" "int i < offset \<or> e \<le> int i" for i
  proof -
    have "i < nat offset \<or> nat offset + length ob \<le> i"
      using that(2) e assms(3) by auto
    then show ?thesis
      unfolding d' using lF sh(4) that(1) by (intro nth_spliced) auto
  qed
  have sc: "e = scan_end data offset"
    by (simp add: e_def extract_string_def Let_def)
  have scan: "offset \<le> e \<and> even (e - offset) \<and>
         (\<forall>k. offset + 2 * int k < e \<longrightarrow>
              sep_run (py_slice data (offset + 2 * int k) (offset + 2 * int k + 4)) = []) \<and>
         (e < int (length data) - 1 \<longrightarrow> sep_run (py_slice data e (e + 4)) \<noteq> [])"
    unfolding sc
    using scan_end_ge [of offset data] scan_end_even [of data offset]
      scan_end_first_separator [of offset data]
    by blast
  have frame: "length data' = length data \<and>
         (\<forall>i < length data. int i < offset \<or> e + int (length sep_bytes) \<le> int i
              \<longrightarrow> data' ! i = data ! i) \<and>
         (\<forall>i < length data. e \<le> int i \<longrightarrow> data' ! i = data ! i)"
    using len out by auto
  show ?thesis using frame scan by blast
qed

theorem in_place_frame_witness:
  "patch_entry (\<lambda>_. [0x42,0x6F,0x6E,0x6A,0x6F,0x75,0x72])
     [1,2,0x48,0,0x65,0,0x6C,0,0x6C,0,0x6F,0,0,0,0xFF,0xFF,0x41,0] (2, 10)
   = Inr [1,2,0x42,0,0x6F,0,0x6E,0,0x6A,0,0x6F,0,0,0,0xFF,0xFF,0x41,0] \<and>
   length [1,2,0x42,0,0x6F,0,0x6E,0,0x6A,0,0x6F,0,0,0,0xFF,0xFF,0x41,0::byte]
   = length [1,2,0x48,0,0x65,0,0x6C,0,0x6C,0,0x6F,0,0,0,0xFF,0xFF,0x41,0::byte] \<and>
   [1,2,0x42,0,0x6F,0,0x6E,0,0x6A,0,0x6F,0,0,0,0xFF,0xFF,0x41,0::byte] ! 1
   = [1,2,0x48,0,0x65,0,0x6C,0,0x6C,0,0x6F,0,0,0,0xFF,0xFF,0x41,0] ! 1 \<and>
   [1,2,0x42,0,0x6F,0,0x6E,0,0x6A,0,0x6F,0,0,0,0xFF,0xFF,0x41,0::byte] ! 12
   = [1,2,0x48,0,0x65,0,0x6C,0,0x6C,0,0x6F,0,0,0,0xFF,0xFF,0x41,0] ! 12"
proof -
  have h: "(0::int) \<le> 2" by simp
  note f = in_place_frame [OF h example_truncate, unfolded example_extract snd_conv]
  note f1 = f [THEN conjunct1]
  note f3 = f [THEN conjunct2, THEN conjunct2, THEN conjunct1]
  have "(1::nat) < length [1,2,0x48,0,0x65,0,0x6C,0,0x6C,0,0x6F,0,0,0,0xFF,0xFF,0x41,0::byte]"
       "(12::nat) < length [1,2,0x48,0,0x65,0,0x6C,0,0x6C,0,0x6F,0,0,0,0xFF,0xFF,0x41,0::byte]"
    by simp_all
  with f1 f3 example_truncate show ?thesis by auto
qed

lemma example_given_range:
  "patch_entry (\<lambda>_. [0x42,0x6F,0x6E,0x6A,0x6F,0x75,0x72])
     [1,2,0x48,0,0x65,0,0x6C,0,0x6C,0,0x6F,0,0,0,0xFF,0xFF,0x41,0] (2, 4)
   = Inr [1,2,0x42,0,0x6F,0,0x6E,0,0x6A,0,0x6F,0,0,0,0xFF,0xFF,0x41,0]"
  by (simp add: patch_entry_def example_extract is_surrogate_def char_bytes_def unit_bytes_def
      fit_original_size_def py_slice_from_nonneg py_slice_assign_nonneg is_sep_pair_def)

text \<open>
  C3, as stated, fails on the example when the entry gives the range of 4 bytes at offset
  2: the string scanned at offset 2 has 10 bytes, all of them are overwritten, and byte 6,
  outside the given range, is changed.
\<close>

theorem given_range_counterexample:
  "patch_entry (\<lambda>_. [0x42,0x6F,0x6E,0x6A,0x6F,0x75,0x72])
     [1,2,0x48,0,0x65,0,0x6C,0,0x6C,0,0x6F,0,0,0,0xFF,0xFF,0x41,0] (2, 4)
   = Inr [1,2,0x42,0,0x6F,0,0x6E,0,0x6A,0,0x6F,0,0,0,0xFF,0xFF,0x41,0] \<and>
   (2 :: int) + 4 \<le> int 6 \<and>
   6 < length [1,2,0x48,0,0x65,0,0x6C,0,0x6C,0,0x6F,0,0,0,0xFF,0xFF,0x41,0 :: byte] \<and>
   [1,2,0x42,0,0x6F,0,0x6E,0,0x6A,0,0x6F,0,0,0,0xFF,0xFF,0x41,0 :: byte] ! 6
   \<noteq> [1,2,0x48,0,0x65,0,0x6C,0,0x6C,0,0x6F,0,0,0,0xFF,0xFF,0x41,0] ! 6"
  by (simp add: example_given_range)



section \<open>The relocating injector: appending and pointer rewriting\<close>

lemma to_bytes4_Inr: "0 \<le> a \<Longrightarrow> a < 2 ^ 32 \<Longrightarrow> to_bytes4 a = Inr (le32 a)"
  by (simp add: to_bytes4_def)

lemma to_bytes4_cases: "to_bytes4 a = Inr b \<Longrightarrow> b = le32 a"
  by (auto simp: to_bytes4_def split: if_splits)

text \<open>One pointer write inside the file: four bytes replaced by four bytes.\<close>

lemma pointer_write:
  assumes "0 \<le> off" "off + 4 \<le> int (length d)" "length b = 4"
  shows "length (py_slice_assign d off (off + 4) b) = length d"
    and "i < length d \<Longrightarrow> py_slice_assign d off (off + 4) b ! i =
           (if off \<le> int i \<and> int i < off + 4 then b ! nat (int i - off) else d ! i)"
proof -
  have eq: "py_slice_assign d off (off + 4) b = take (nat off) d @ b @ drop (nat off + 4) d"
    using assms(1) by (simp add: py_slice_assign_nonneg nat_add_distrib)
  have le: "nat off + 4 \<le> length d" using assms(1,2) by linarith
  show "length (py_slice_assign d off (off + 4) b) = length d"
    unfolding eq using le assms(3) by simp
  show "py_slice_assign d off (off + 4) b ! i =
           (if off \<le> int i \<and> int i < off + 4 then b ! nat (int i - off) else d ! i)"
    if "i < length d"
  proof (cases "int i < off")
    case True
    then have "i < nat off" using assms(1) by linarith
    then show ?thesis unfolding eq using True le by (simp add: nth_append)
  next
    case False
    then have ge: "nat off \<le> i" by linarith
    show ?thesis
    proof (cases "int i < off + 4")
      case True
      then have "i - nat off < 4" using ge assms(1) by linarith
      moreover have "nat (int i - off) = i - nat off" using ge assms(1) by linarith
      ultimately show ?thesis
        unfolding eq using True False ge le assms(3) by (simp add: nth_append)
    next
      case f2: False
      then have "nat off + 4 \<le> i" using assms(1) by linarith
      then show ?thesis
        unfolding eq using f2 False le assms(3) that
        by (auto simp: nth_append)
    qed
  qed
qed

lemma rewrite_pointers_length:
  "rewrite_pointers a ps d = Inr d' \<Longrightarrow> length d' = length d"
proof (induction ps arbitrary: d)
  case Nil
  then show ?case by simp
next
  case (Cons p ps)
  show ?case
  proof (cases "p - BASE_ADDR < 0 \<or> p - BASE_ADDR + 4 > int (length d)")
    case True
    then show ?thesis using Cons by (simp add: Let_def)
  next
    case False
    then obtain b where b: "to_bytes4 a = Inr b"
      and r: "rewrite_pointers a ps (py_slice_assign d (p - BASE_ADDR) (p - BASE_ADDR + 4) b) = Inr d'"
      using Cons.prems by (auto simp: Let_def split: sum.splits)
    have "length b = 4" using to_bytes4_cases [OF b] by (simp add: length_le32)
    then have "length (py_slice_assign d (p - BASE_ADDR) (p - BASE_ADDR + 4) b) = length d"
      using False by (intro pointer_write(1)) auto
    then show ?thesis using Cons.IH [OF r] by simp
  qed
qed

lemma rewrite_pointers_total:
  "0 \<le> a \<Longrightarrow> a < 2 ^ 32 \<Longrightarrow> \<exists>d'. rewrite_pointers a ps d = Inr d'"
  by (induction ps arbitrary: d) (auto simp: Let_def to_bytes4_Inr)

text \<open>The first step of the inner loop, for a pointer out of the file and for one in it.\<close>

lemma rewrite_pointers_skip:
  "\<not> pointer_in_file (length d) q \<Longrightarrow> rewrite_pointers a (q # ps) d = rewrite_pointers a ps d"
  by (simp add: pointer_in_file_def Let_def)

lemma rewrite_pointers_step:
  assumes "pointer_in_file (length d) q" "rewrite_pointers a (q # ps) d = Inr d'"
  defines "d1 \<equiv> py_slice_assign d (q - BASE_ADDR) (q - BASE_ADDR + 4) (le32 a)"
  shows "rewrite_pointers a ps d1 = Inr d'"
    and "length d1 = length d"
    and "i < length d \<Longrightarrow> d1 ! i = (if slot q i then le32 a ! nat (int i - (q - BASE_ADDR)) else d ! i)"
proof -
  have inq: "0 \<le> q - BASE_ADDR" "q - BASE_ADDR + 4 \<le> int (length d)"
    using assms(1) by (auto simp: pointer_in_file_def Let_def)
  obtain b where b: "to_bytes4 a = Inr b"
      "rewrite_pointers a ps (py_slice_assign d (q - BASE_ADDR) (q - BASE_ADDR + 4) b) = Inr d'"
    using assms(1,2) by (auto simp: pointer_in_file_def Let_def split: sum.splits)
  have "b = le32 a" using b(1) by (rule to_bytes4_cases)
  then show "rewrite_pointers a ps d1 = Inr d'" using b(2) by (simp add: d1_def)
  show "length d1 = length d"
    unfolding d1_def using inq length_le32 by (rule pointer_write(1))
  show "d1 ! i = (if slot q i then le32 a ! nat (int i - (q - BASE_ADDR)) else d ! i)"
    if "i < length d"
    using pointer_write(2) [OF inq length_le32 that, of a] by (simp add: d1_def slot_def)
qed

text \<open>A byte that no pointer location in the file covers is left as it is.\<close>

lemma rewrite_pointers_frame:
  assumes "rewrite_pointers a ps d = Inr d'" and "i < length d"
    and "\<forall>q \<in> set ps. pointer_in_file (length d) q \<longrightarrow> \<not> slot q i"
  shows "d' ! i = d ! i"
  using assms
proof (induction ps arbitrary: d)
  case Nil
  then show ?case by simp
next
  case (Cons q ps)
  have rest: "\<forall>r \<in> set ps. pointer_in_file (length d) r \<longrightarrow> \<not> slot r i"
    using Cons.prems(3) by simp
  show ?case
  proof (cases "pointer_in_file (length d) q")
    case False
    then have "rewrite_pointers a ps d = Inr d'"
      using Cons.prems(1) by (simp only: rewrite_pointers_skip [OF False])
    then show ?thesis using Cons.prems(2) rest by (rule Cons.IH)
  next
    case True
    note s = rewrite_pointers_step [OF True Cons.prems(1)]
    let ?d1 = "py_slice_assign d (q - BASE_ADDR) (q - BASE_ADDR + 4) (le32 a)"
    have "\<not> slot q i" using Cons.prems(3) True by simp
    then have n: "?d1 ! i = d ! i" using s(3) [OF Cons.prems(2)] by simp
    have "d' ! i = ?d1 ! i"
      using s(1) Cons.prems(2) rest unfolding s(2) [symmetric]
      by (intro Cons.IH) (simp_all add: s(2))
    then show ?thesis using n by simp
  qed
qed

text \<open>
  A byte that one pointer location in the file covers, and no other, holds the byte of
  the new address.
\<close>

lemma rewrite_pointers_written:
  assumes "rewrite_pointers a ps d = Inr d'" and "i < length d"
    and "p \<in> set ps" and "pointer_in_file (length d) p" and "slot p i"
    and "\<forall>q \<in> set ps. pointer_in_file (length d) q \<and> slot q i \<longrightarrow> q = p"
  shows "d' ! i = le32 a ! nat (int i - (p - BASE_ADDR))"
  using assms
proof (induction ps arbitrary: d)
  case Nil
  then show ?case by simp
next
  case (Cons q ps)
  have only: "\<forall>r \<in> set ps. pointer_in_file (length d) r \<and> slot r i \<longrightarrow> r = p"
    using Cons.prems(6) by simp
  show ?case
  proof (cases "pointer_in_file (length d) q")
    case False
    then have r: "rewrite_pointers a ps d = Inr d'"
      using Cons.prems(1) by (simp only: rewrite_pointers_skip [OF False])
    have "p \<noteq> q" using False Cons.prems(4) by auto
    then have "p \<in> set ps" using Cons.prems(3) by simp
    with r Cons.prems(2) show ?thesis using Cons.prems(4,5) only by (rule Cons.IH)
  next
    case True
    note s = rewrite_pointers_step [OF True Cons.prems(1)]
    let ?d1 = "py_slice_assign d (q - BASE_ADDR) (q - BASE_ADDR + 4) (le32 a)"
    have i1: "i < length ?d1" using s(2) Cons.prems(2) by simp
    show ?thesis
    proof (cases "p \<in> set ps")
      case True
      show ?thesis
        using s(1) i1 True Cons.prems(4,5) only unfolding s(2) [symmetric]
        by (rule Cons.IH)
    next
      case False
      then have pq: "q = p" using Cons.prems(3) by simp
      have "\<forall>r \<in> set ps. pointer_in_file (length ?d1) r \<longrightarrow> \<not> slot r i"
        using only False unfolding s(2) by blast
      with s(1) i1 have "d' ! i = ?d1 ! i" by (rule rewrite_pointers_frame)
      then show ?thesis using s(3) [OF Cons.prems(2)] Cons.prems(5) pq by simp
    qed
  qed
qed

lemma new_addr_range:
  "st_cursor st = int (length (st_data st)) \<Longrightarrow> BASE_ADDR + st_cursor st < 2 ^ 32 \<Longrightarrow>
   0 \<le> new_addr st \<and> new_addr st < 2 ^ 32"
  by (simp add: new_addr_def BASE_ADDR_def)

text \<open>
  One row, in a state whose cursor is the length of the image and whose new address fits
  32 bits: the pointers are written with \<open>BASE_ADDR\<close> plus that length, the block is put
  behind the image, and the cursor is the new length.
\<close>

lemma process_row_shape:
  assumes "st_cursor st = int (length (st_data st))"
    and "BASE_ADDR + int (length (st_data st)) < 2 ^ 32"
  shows "\<exists>d. rewrite_pointers (BASE_ADDR + int (length (st_data st))) (row_pointer_offsets r)
               (st_data st) = Inr d \<and>
             length d = length (st_data st) \<and>
             process_row st r = Inr (start_state (d @ block r))"
proof -
  have n: "new_addr st = BASE_ADDR + int (length (st_data st))"
    using assms(1) by (simp add: new_addr_def)
  have "0 \<le> new_addr st \<and> new_addr st < 2 ^ 32"
    using new_addr_range [of st] assms by simp
  then obtain d where d: "rewrite_pointers (new_addr st) (row_pointer_offsets r) (st_data st) = Inr d"
    using rewrite_pointers_total [of "new_addr st"] by blast
  have l: "length d = length (st_data st)"
    using d by (rule rewrite_pointers_length)
  have "process_row st r = Inr (start_state (d @ block r))"
    using assms(1) l by (simp add: process_row_def d start_state_def)
  then show ?thesis using d l n by auto
qed

lemma main_loop_append:
  "main_loop idx st (pre @ rest) =
     (case main_loop idx st pre of
        Inl e \<Rightarrow> Inl e
      | Inr st1 \<Rightarrow> main_loop (idx + length pre) st1 rest)"
proof (induction pre arbitrary: idx st)
  case Nil
  then show ?case by simp
next
  case (Cons r pre)
  show ?case
  proof (cases "idx \<ge> MAX_CHAINES")
    case True
    then show ?thesis by (cases rest) simp_all
  next
    case False
    then show ?thesis using Cons.IH by (simp split: sum.splits)
  qed
qed

text \<open>
  The state the loop is in when it comes to a row: the rows before it have all been
  processed, the image has grown by their blocks and the cursor is its length.
\<close>

lemma main_loop_reach:
  assumes "idx + length pre \<le> MAX_CHAINES"
    and "st_cursor st = int (length (st_data st))"
    and "BASE_ADDR + int (length (st_data st)) + int (sum_list (map (\<lambda>r. length (block r)) pre))
         < 2 ^ 32"
  shows "\<exists>st1. main_loop idx st pre = Inr st1 \<and>
               st_cursor st1 = int (length (st_data st1)) \<and>
               length (st_data st1) = length (st_data st) + sum_list (map (\<lambda>r. length (block r)) pre)"
  using assms
proof (induction pre arbitrary: idx st)
  case Nil
  then show ?case by simp
next
  case (Cons r pre)
  have b: "BASE_ADDR + int (length (st_data st)) < 2 ^ 32"
    using Cons.prems(3) by simp
  obtain d where d: "length d = length (st_data st)"
      "process_row st r = Inr (start_state (d @ block r))"
    using process_row_shape [OF Cons.prems(2) b] by blast
  let ?s2 = "start_state (d @ block r)"
  have s2: "st_cursor ?s2 = int (length (st_data ?s2))"
      "length (st_data ?s2) = length (st_data st) + length (block r)"
    using d(1) by (simp_all add: start_state_def)
  have "\<exists>st1. main_loop (Suc idx) ?s2 pre = Inr st1 \<and>
               st_cursor st1 = int (length (st_data st1)) \<and>
               length (st_data st1) = length (st_data ?s2) + sum_list (map (\<lambda>r. length (block r)) pre)"
    using Cons.prems(1,3) s2 by (intro Cons.IH) auto
  then obtain st1 where st1: "main_loop (Suc idx) ?s2 pre = Inr st1"
      "st_cursor st1 = int (length (st_data st1))"
      "length (st_data st1) = length (st_data ?s2) + sum_list (map (\<lambda>r. length (block r)) pre)"
    by blast
  have "\<not> idx \<ge> MAX_CHAINES" using Cons.prems(1) by simp
  then have "main_loop idx st (r # pre) = Inr st1"
    using d(2) st1(1) by simp
  then show ?case using st1 s2 by auto
qed

text \<open>
  C2. A run of \<^verbatim>\<open>main\<close> on an image \<open>input\<close> that comes to a row \<open>r\<close> after the rows
  \<open>pre\<close> (fewer than \<^verbatim>\<open>MAX_CHAINES\<close> of them), when the address of the row fits 32 bits,
  so that no pointer write can raise. The loop reaches \<open>r\<close> with an image \<open>st_data st\<close>
  that is as long as the input and the blocks of \<open>pre\<close> together. The pointers of \<open>r\<close>
  are written with \<open>BASE_ADDR\<close> plus the length of that image, which keeps its length
  (\<open>d\<close>). The block of \<open>r\<close> is put behind it: the image after the row is \<open>d @ block r\<close>,
  the cursor is its length, \<^verbatim>\<open>main\<close> on the rows up to \<open>r\<close> returns it, and the run goes
  on from there.
\<close>

theorem relocation_append:
  assumes "length pre < MAX_CHAINES"
    and "BASE_ADDR + int (length input) + int (sum_list (map (\<lambda>r. length (block r)) pre)) < 2 ^ 32"
  shows "\<exists>st d. main_loop 0 (start_state input) pre = Inr st \<and>
           length (st_data st) = length input + sum_list (map (\<lambda>r. length (block r)) pre) \<and>
           rewrite_pointers (BASE_ADDR + int (length (st_data st))) (row_pointer_offsets r)
             (st_data st) = Inr d \<and>
           length d = length (st_data st) \<and>
           process_row st r = Inr (start_state (d @ block r)) \<and>
           main input (pre @ [r]) = Inr (d @ block r) \<and>
           main_loop 0 (start_state input) (pre @ r # post)
             = main_loop (Suc (length pre)) (start_state (d @ block r)) post"
proof -
  have "\<exists>st1. main_loop 0 (start_state input) pre = Inr st1 \<and>
               st_cursor st1 = int (length (st_data st1)) \<and>
               length (st_data st1) = length (st_data (start_state input))
                  + sum_list (map (\<lambda>r. length (block r)) pre)"
    using assms by (intro main_loop_reach) (simp_all add: start_state_def)
  then obtain st where st: "main_loop 0 (start_state input) pre = Inr st"
      "st_cursor st = int (length (st_data st))"
      "length (st_data st) = length input + sum_list (map (\<lambda>r. length (block r)) pre)"
    by (auto simp: start_state_def)
  have b: "BASE_ADDR + int (length (st_data st)) < 2 ^ 32"
    using assms(2) st(3) by simp
  obtain d where d: "rewrite_pointers (BASE_ADDR + int (length (st_data st)))
        (row_pointer_offsets r) (st_data st) = Inr d"
      "length d = length (st_data st)"
      "process_row st r = Inr (start_state (d @ block r))"
    using process_row_shape [OF st(2) b] by blast
  have n: "\<not> length pre \<ge> MAX_CHAINES" using assms(1) by simp
  have step: "main_loop (length pre) st (r # post) = main_loop (Suc (length pre)) (start_state (d @ block r)) post"
    for post
    using n d(3) by simp
  have m1: "main_loop 0 (start_state input) (pre @ r # post)
             = main_loop (Suc (length pre)) (start_state (d @ block r)) post" for post
    using main_loop_append [of 0 "start_state input" pre "r # post"] st(1) step by simp
  have m2: "main input (pre @ [r]) = Inr (d @ block r)"
    using m1 [of "[]"] by (simp add: main_def start_state_def)
  show ?thesis
    using st(1,3) d m1 m2 by blast
qed

text \<open>
  C5, amended. In the same run, at the same row: the row is processed and its block is
  appended, whatever its pointers are. Every pointer of the row whose location lies
  inside the image as it is before the append, and which no other pointer location of
  the row inside the image overlaps (each is the same location or at least four bytes
  away), holds the new address afterwards. Every byte of the old image that no pointer
  location inside the image covers is unchanged: a pointer out of range is left as it
  is, and the row is not skipped.
\<close>

theorem entry_applied_pointerwise:
  assumes "length pre < MAX_CHAINES"
    and "BASE_ADDR + int (length input) + int (sum_list (map (\<lambda>r. length (block r)) pre)) < 2 ^ 32"
  shows "\<exists>st st'. main_loop 0 (start_state input) pre = Inr st \<and>
           process_row st r = Inr st' \<and>
           length (st_data st') = length (st_data st) + length (block r) \<and>
           drop (length (st_data st)) (st_data st') = block r \<and>
           (\<forall>p \<in> set (row_pointer_offsets r).
              pointer_in_file (length (st_data st)) p \<and>
              (\<forall>q \<in> set (row_pointer_offsets r).
                 pointer_in_file (length (st_data st)) q \<longrightarrow> q = p \<or> 4 \<le> \<bar>p - q\<bar>)
              \<longrightarrow> py_slice (st_data st') (p - BASE_ADDR) (p - BASE_ADDR + 4)
                    = le32 (BASE_ADDR + int (length (st_data st)))) \<and>
           (\<forall>i < length (st_data st).
              (\<forall>p \<in> set (row_pointer_offsets r).
                  pointer_in_file (length (st_data st)) p \<longrightarrow> \<not> slot p i)
              \<longrightarrow> st_data st' ! i = st_data st ! i)"
proof -
  have "\<exists>st1. main_loop 0 (start_state input) pre = Inr st1 \<and>
               st_cursor st1 = int (length (st_data st1)) \<and>
               length (st_data st1) = length (st_data (start_state input))
                  + sum_list (map (\<lambda>r. length (block r)) pre)"
    using assms by (intro main_loop_reach) (simp_all add: start_state_def)
  then obtain st where st: "main_loop 0 (start_state input) pre = Inr st"
      "st_cursor st = int (length (st_data st))"
      "length (st_data st) = length input + sum_list (map (\<lambda>r. length (block r)) pre)"
    by (auto simp: start_state_def)
  have b: "BASE_ADDR + int (length (st_data st)) < 2 ^ 32"
    using assms(2) st(3) by simp
  let ?ps = "row_pointer_offsets r" and ?d0 = "st_data st"
  let ?a = "BASE_ADDR + int (length ?d0)"
  obtain d where d: "rewrite_pointers ?a ?ps ?d0 = Inr d" "length d = length ?d0"
      "process_row st r = Inr (start_state (d @ block r))"
    using process_row_shape [OF st(2) b] by blast
  define st' where "st' = start_state (d @ block r)"
  have sd: "st_data st' = d @ block r" by (simp add: st'_def start_state_def)
  have ptr: "py_slice (st_data st') (p - BASE_ADDR) (p - BASE_ADDR + 4) = le32 ?a"
    if "p \<in> set ?ps" "pointer_in_file (length ?d0) p"
      "\<forall>q \<in> set ?ps. pointer_in_file (length ?d0) q \<longrightarrow> q = p \<or> 4 \<le> \<bar>p - q\<bar>" for p
  proof -
    let ?o = "nat (p - BASE_ADDR)"
    have o: "0 \<le> p - BASE_ADDR" "?o + 4 \<le> length ?d0"
      using that(2) by (auto simp: pointer_in_file_def Let_def)
    have "py_slice (st_data st') (p - BASE_ADDR) (p - BASE_ADDR + 4) = take 4 (drop ?o d)"
      using o d(2) by (simp add: sd py_slice_nonneg nat_add_distrib)
    also have "\<dots> = le32 ?a"
    proof (rule nth_equalityI)
      show "length (take 4 (drop ?o d)) = length (le32 ?a)"
        using o d(2) by (simp add: length_le32)
      fix i assume "i < length (take 4 (drop ?o d))"
      then have i: "i < 4" by simp
      then have c: "?o + i < length ?d0" "slot p (?o + i)"
        using o by (auto simp: slot_def)
      have only: "\<forall>q \<in> set ?ps. pointer_in_file (length ?d0) q \<and> slot q (?o + i) \<longrightarrow> q = p"
      proof (intro ballI impI)
        fix q assume q: "q \<in> set ?ps" "pointer_in_file (length ?d0) q \<and> slot q (?o + i)"
        then have "q = p \<or> 4 \<le> \<bar>p - q\<bar>" using that(3) by blast
        moreover have "\<bar>p - q\<bar> < 4" using q(2) c(2) by (auto simp: slot_def)
        ultimately show "q = p" by linarith
      qed
      have "d ! (?o + i) = le32 ?a ! nat (int (?o + i) - (p - BASE_ADDR))"
        using d(1) c(1) that(1,2) c(2) only by (rule rewrite_pointers_written)
      then show "take 4 (drop ?o d) ! i = le32 ?a ! i"
        using i o d(2) by simp
    qed
    finally show ?thesis .
  qed
  have frame: "st_data st' ! i = ?d0 ! i"
    if "i < length ?d0" "\<forall>p \<in> set ?ps. pointer_in_file (length ?d0) p \<longrightarrow> \<not> slot p i" for i
  proof -
    have "d ! i = ?d0 ! i" using d(1) that by (rule rewrite_pointers_frame)
    then show ?thesis using that(1) d(2) by (simp add: sd nth_append)
  qed
  have "main_loop 0 (start_state input) pre = Inr st \<and>
           process_row st r = Inr st' \<and>
           length (st_data st') = length (st_data st) + length (block r) \<and>
           drop (length (st_data st)) (st_data st') = block r"
    using st(1) d(2,3) by (simp add: st'_def sd [unfolded st'_def])
  then show ?thesis
    using ptr frame by blast
qed

text \<open>
  The running example: an image of eight zero bytes; one row with the text \<^verbatim>\<open>"A"\<close>, the
  separator \<open>00 00\<close> and two pointers, at virtual addresses \<open>0x100000\<close> (file offset 0)
  and \<open>0x100006\<close> (file offset 6, whose four bytes would end past the image).
\<close>

lemma example_row:
  "process_row \<lparr>st_data = [0, 0, 0, 0, 0, 0, 0, 0], st_cursor = 8\<rparr>
     \<lparr>row_utf16_bytes = [0x41, 0], row_sep_bytes = [0, 0],
      row_pointer_offsets = [0x100000, 0x100006]\<rparr>
   = Inr \<lparr>st_data = [8, 0, 0x10, 0, 0, 0, 0, 0, 0x41, 0, 0, 0], st_cursor = 12\<rparr>"
  by (simp add: process_row_def new_addr_def BASE_ADDR_def block_def Let_def to_bytes4_def
      le32_def py_slice_assign_nonneg)

text \<open>
  C5, as stated, fails on the example: the row is processed, its payload is written at
  offset 8 and the pointer at offset 0 holds the new address \<open>0x100008\<close>, but the pointer
  at offset 6 was skipped and does not hold it; the row is neither fully applied nor
  skipped with the image unchanged.
\<close>

theorem half_applied_counterexample:
  "process_row \<lparr>st_data = [0, 0, 0, 0, 0, 0, 0, 0], st_cursor = 8\<rparr>
     \<lparr>row_utf16_bytes = [0x41, 0], row_sep_bytes = [0, 0],
      row_pointer_offsets = [0x100000, 0x100006]\<rparr>
   = Inr \<lparr>st_data = [8, 0, 0x10, 0, 0, 0, 0, 0, 0x41, 0, 0, 0], st_cursor = 12\<rparr> \<and>
   \<not> fully_applied \<lparr>st_data = [0, 0, 0, 0, 0, 0, 0, 0], st_cursor = 8\<rparr>
     \<lparr>row_utf16_bytes = [0x41, 0], row_sep_bytes = [0, 0],
      row_pointer_offsets = [0x100000, 0x100006]\<rparr>
     \<lparr>st_data = [8, 0, 0x10, 0, 0, 0, 0, 0, 0x41, 0, 0, 0], st_cursor = 12\<rparr> \<and>
   \<not> skipped_unchanged \<lparr>st_data = [0, 0, 0, 0, 0, 0, 0, 0], st_cursor = 8\<rparr>
     \<lparr>st_data = [8, 0, 0x10, 0, 0, 0, 0, 0, 0x41, 0, 0, 0], st_cursor = 12\<rparr> \<and>
   drop 8 [8, 0, 0x10, 0, 0, 0, 0, 0, 0x41, 0, 0, 0 :: byte] = [0x41, 0, 0, 0] \<and>
   py_slice [8, 0, 0x10, 0, 0, 0, 0, 0, 0x41, 0, 0, 0 :: byte] 0 4 = le32 0x100008 \<and>
   py_slice [8, 0, 0x10, 0, 0, 0, 0, 0, 0x41, 0, 0, 0 :: byte] 6 10 \<noteq> le32 0x100008"
  by (simp add: example_row fully_applied_def skipped_unchanged_def block_def new_addr_def
      BASE_ADDR_def le32_def py_slice_nonneg)


text \<open>
  A run of two rows on the example: the second row, the text \<^verbatim>\<open>"B"\<close> with a pointer at
  file offset 4, comes when the image has 12 bytes and gets the address \<open>0x10000C\<close>.
\<close>

lemma example_run:
  "main_loop 0 (start_state [0, 0, 0, 0, 0, 0, 0, 0]) [\<lparr>row_utf16_bytes = [0x41, 0], row_sep_bytes = [0, 0],
      row_pointer_offsets = [0x100000, 0x100006]\<rparr>] = Inr (start_state [8, 0, 0x10, 0, 0, 0, 0, 0, 0x41, 0, 0, 0]) \<and>
   main [0, 0, 0, 0, 0, 0, 0, 0]
     [\<lparr>row_utf16_bytes = [0x41, 0], row_sep_bytes = [0, 0],
      row_pointer_offsets = [0x100000, 0x100006]\<rparr>,
      \<lparr>row_utf16_bytes = [0x42, 0], row_sep_bytes = [],
      row_pointer_offsets = [0x100004]\<rparr>]
   = Inr [8, 0, 0x10, 0, 0x0C, 0, 0x10, 0, 0x41, 0, 0, 0, 0x42, 0]"
  by (simp add: main_def start_state_def MAX_CHAINES_def process_row_def new_addr_def
      BASE_ADDR_def block_def Let_def to_bytes4_def le32_def py_slice_assign_nonneg)

theorem relocation_append_witness:
  "main_loop 0 (start_state [0, 0, 0, 0, 0, 0, 0, 0]) [\<lparr>row_utf16_bytes = [0x41, 0], row_sep_bytes = [0, 0],
      row_pointer_offsets = [0x100000, 0x100006]\<rparr>] = Inr (start_state [8, 0, 0x10, 0, 0, 0, 0, 0, 0x41, 0, 0, 0]) \<and>
   main [0, 0, 0, 0, 0, 0, 0, 0]
     [\<lparr>row_utf16_bytes = [0x41, 0], row_sep_bytes = [0, 0],
      row_pointer_offsets = [0x100000, 0x100006]\<rparr>,
      \<lparr>row_utf16_bytes = [0x42, 0], row_sep_bytes = [],
      row_pointer_offsets = [0x100004]\<rparr>]
   = Inr [8, 0, 0x10, 0, 0x0C, 0, 0x10, 0, 0x41, 0, 0, 0, 0x42, 0] \<and>
   drop 12 [8, 0, 0x10, 0, 0x0C, 0, 0x10, 0, 0x41, 0, 0, 0, 0x42, 0 :: byte] = [0x42, 0] \<and>
   py_slice [8, 0, 0x10, 0, 0x0C, 0, 0x10, 0, 0x41, 0, 0, 0, 0x42, 0 :: byte] 4 8 = le32 (BASE_ADDR + 12)"
proof -
  have h1: "length [\<lparr>row_utf16_bytes = [0x41, 0], row_sep_bytes = [0, 0],
      row_pointer_offsets = [0x100000, 0x100006]\<rparr>] < MAX_CHAINES"
    by (simp add: MAX_CHAINES_def)
  have h2: "BASE_ADDR + int (length [0, 0, 0, 0, 0, 0, 0, 0 :: byte])
            + int (sum_list (map (\<lambda>r. length (block r)) [\<lparr>row_utf16_bytes = [0x41, 0], row_sep_bytes = [0, 0],
      row_pointer_offsets = [0x100000, 0x100006]\<rparr>])) < 2 ^ 32"
    by (simp add: BASE_ADDR_def block_def)
  show ?thesis
    using relocation_append [OF h1 h2, of "\<lparr>row_utf16_bytes = [0x42, 0], row_sep_bytes = [],
      row_pointer_offsets = [0x100004]\<rparr>" "[]"] example_run
    by (auto simp: le32_def BASE_ADDR_def py_slice_nonneg)
qed

text \<open>
  Two pointer locations of one row that overlap, at file offsets 0 and 2: the second
  write goes over the last two bytes of the first, which then does not hold the address.
\<close>

lemma example_overlap:
  "process_row (start_state [0, 0, 0, 0, 0, 0, 0, 0])
     \<lparr>row_utf16_bytes = [0x41, 0], row_sep_bytes = [0, 0],
      row_pointer_offsets = [0x100000, 0x100002]\<rparr>
   = Inr (start_state [8, 0, 8, 0, 0x10, 0, 0, 0, 0x41, 0, 0, 0]) \<and>
   py_slice [8, 0, 8, 0, 0x10, 0, 0, 0, 0x41, 0, 0, 0 :: byte] 0 4 \<noteq> le32 0x100008 \<and>
   py_slice [8, 0, 8, 0, 0x10, 0, 0, 0, 0x41, 0, 0, 0 :: byte] 2 6 = le32 0x100008"
  by (simp add: start_state_def process_row_def new_addr_def BASE_ADDR_def block_def Let_def
      to_bytes4_def le32_def py_slice_assign_nonneg py_slice_nonneg)

theorem entry_applied_pointerwise_witness:
  "process_row (start_state [0, 0, 0, 0, 0, 0, 0, 0])
     \<lparr>row_utf16_bytes = [0x41, 0], row_sep_bytes = [0, 0],
      row_pointer_offsets = [0x100000, 0x100006]\<rparr>
   = Inr (start_state [8, 0, 0x10, 0, 0, 0, 0, 0, 0x41, 0, 0, 0]) \<and>
   pointer_in_file 8 0x100000 \<and> \<not> pointer_in_file 8 0x100006 \<and>
   py_slice [8, 0, 0x10, 0, 0, 0, 0, 0, 0x41, 0, 0, 0 :: byte] (0x100000 - BASE_ADDR) (0x100000 - BASE_ADDR + 4) = le32 (BASE_ADDR + 8) \<and>
   drop 8 [8, 0, 0x10, 0, 0, 0, 0, 0, 0x41, 0, 0, 0 :: byte] = [0x41, 0, 0, 0] \<and>
   [8, 0, 0x10, 0, 0, 0, 0, 0, 0x41, 0, 0, 0 :: byte] ! 5 = [0, 0, 0, 0, 0, 0, 0, 0] ! 5"
proof -
  have h1: "length ([] :: row list) < MAX_CHAINES"
    by (simp add: MAX_CHAINES_def)
  have h2: "BASE_ADDR + int (length [0, 0, 0, 0, 0, 0, 0, 0 :: byte])
            + int (sum_list (map (\<lambda>r. length (block r)) [])) < 2 ^ 32"
    by (simp add: BASE_ADDR_def)
  have e: "process_row (start_state [0, 0, 0, 0, 0, 0, 0, 0])
     \<lparr>row_utf16_bytes = [0x41, 0], row_sep_bytes = [0, 0],
      row_pointer_offsets = [0x100000, 0x100006]\<rparr>
   = Inr (start_state [8, 0, 0x10, 0, 0, 0, 0, 0, 0x41, 0, 0, 0])"
    using example_row by (simp add: start_state_def)
  have i: "pointer_in_file 8 0x100000" "\<not> pointer_in_file 8 0x100006"
    by (simp_all add: pointer_in_file_def BASE_ADDR_def)
  show ?thesis
    using entry_applied_pointerwise [OF h1 h2, of "\<lparr>row_utf16_bytes = [0x41, 0], row_sep_bytes = [0, 0],
      row_pointer_offsets = [0x100000, 0x100006]\<rparr>"] e i
    by (auto simp: BASE_ADDR_def le32_def py_slice_nonneg)
qed

section \<open>The pointer table and the extents\<close>

lemma keys_setdefault_append:
  "map fst (setdefault_append m k v) = (if k \<in> fst ` set m then map fst m else map fst m @ [k])"
  by (induction m k v rule: setdefault_append.induct) (auto simp: image_iff)

lemma lookup_setdefault_append:
  "lookup (setdefault_append m k v) k' = (if k' = k then lookup m k @ [v] else lookup m k')"
  by (induction m k v rule: setdefault_append.induct) (auto simp: lookup_def)

lemma keys_group_rows:
  "fst ` set (group_rows rows m) = fst ` set m \<union> targets rows"
proof (induction rows m rule: group_rows.induct)
  case (1 m)
  then show ?case by (simp add: targets_def)
next
  case (2 rows m)
  then show ?case by (auto simp: targets_def)
next
  case (3 off val rows m)
  have k: "fst ` set (setdefault_append m val off) = insert val (fst ` set m)"
    using keys_setdefault_append [of m val off]
    by (metis (no_types, lifting) insert_absorb list.set_map set_append list.simps(15) 
        Un_insert_right sup_bot.right_neutral empty_set)
  show ?case
  proof (cases "PATCH_START \<le> val \<and> val < PATCH_END")
    case True
    then show ?thesis using 3 k by (auto simp: targets_def in_region_def)
  next
    case False
    then show ?thesis using 3 by (auto simp: targets_def in_region_def)
  qed
qed

lemma distinct_group_rows:
  "distinct (map fst m) \<Longrightarrow> distinct (map fst (group_rows rows m))"
proof (induction rows m rule: group_rows.induct)
  case (3 off val rows m)
  have "distinct (map fst (setdefault_append m val off))"
    using "3.prems" by (simp add: keys_setdefault_append image_iff)
  then show ?case using 3 by simp
qed simp_all

lemma lookup_group_rows:
  "lookup (group_rows rows m) k = lookup m k @ (if in_region k then offsets_of rows k else [])"
proof (induction rows m rule: group_rows.induct)
  case (3 off val rows m)
  then show ?case
    by (auto simp: lookup_setdefault_append in_region_def)
qed simp_all

lemma map_fst_insort_key:
  "map f (insort_key f x xs) = insort (f x) (map f xs)"
  by (induction xs) auto

lemma map_fst_sort_key: "map f (sort_key f xs) = sort (map f xs)"
  by (induction xs) (auto simp: sort_key_def map_fst_insort_key)

lemma keys_table:
  "map fst (load_and_group_pointers rows) = sort (map fst (group_rows rows []))"
proof -
  have "map fst (load_and_group_pointers rows) = map fst (sort_key fst (group_rows rows []))"
    by (simp add: load_and_group_pointers_def case_prod_unfold comp_def)
  then show ?thesis by (simp add: map_fst_sort_key)
qed

lemma table_keys_sorted: "sorted_wrt (<) (map fst (load_and_group_pointers rows))"
  unfolding keys_table strict_sorted_iff
  using distinct_group_rows [of "[]" rows] by simp

lemma table_keys_set: "set (map fst (load_and_group_pointers rows)) = targets rows"
  unfolding keys_table using keys_group_rows [of rows "[]"] by simp

lemma lookup_table:
  "lookup (load_and_group_pointers rows) k = (if in_region k then sort (offsets_of rows k) else [])"
proof -
  let ?g = "group_rows rows []"
  have d: "distinct (map fst ?g)" using distinct_group_rows [of "[]" rows] by simp
  have d': "distinct (map fst (sort_key fst ?g))" by (simp add: map_fst_sort_key d)
  have "map_of (sort_key fst ?g) = map_of ?g"
    using d d' by (simp add: map_of_inject_set)
  then have "map_of (load_and_group_pointers rows) k = map_option sort (map_of ?g k)"
    by (simp add: load_and_group_pointers_def map_of_map)
  then have "lookup (load_and_group_pointers rows) k = sort (lookup ?g k)"
    by (simp add: lookup_def split: option.splits)
  then show ?thesis using lookup_group_rows [of rows "[]" k] by (simp add: lookup_def)
qed

lemma valid_vals_sorted:
  "sorted_wrt (<) (valid_vals printable data (load_and_group_pointers rows))"
  unfolding valid_vals_def by (intro sorted_wrt_filter table_keys_sorted)

lemma valid_vals_in_region:
  "v \<in> set (valid_vals printable data (load_and_group_pointers rows)) \<Longrightarrow> v < PATCH_END"
  using table_keys_set [of rows] by (auto simp: valid_vals_def targets_def in_region_def)

lemma length_extents: "length (extents vs) = length vs"
  by (induction vs rule: extents.induct) auto

lemma starts_extents: "map fst (extents vs) = map (\<lambda>v. v - BASE_ADDR) vs"
  by (induction vs rule: extents.induct) auto

lemma ends_extents:
  "vs \<noteq> [] \<Longrightarrow> map snd (extents vs) = map (\<lambda>v. v - BASE_ADDR) (tl vs) @ [PATCH_END - BASE_ADDR]"
  by (induction vs rule: extents.induct) auto

lemma chain_extents:
  "sorted_wrt (<) (v # vs) \<Longrightarrow> \<forall>x \<in> set (v # vs). x < PATCH_END \<Longrightarrow>
   chain (v - BASE_ADDR) (PATCH_END - BASE_ADDR) (extents (v # vs))"
  by (induction vs arbitrary: v) auto

lemma extents_positive:
  "sorted_wrt (<) vs \<Longrightarrow> \<forall>x \<in> set vs. x < PATCH_END \<Longrightarrow> (s, e) \<in> set (extents vs) \<Longrightarrow> s < e"
  by (induction vs rule: extents.induct) auto

lemma value_make_record: "rec_pointer_value (make_record data m val ext) = val"
  by (simp add: make_record_def case_prod_unfold Let_def)

lemma values_extract_strings:
  "map rec_pointer_value (extract_strings printable data rows)
   = valid_vals printable data (load_and_group_pointers rows)"
proof -
  let ?vs = "valid_vals printable data (load_and_group_pointers rows)"
  have "map rec_pointer_value (extract_strings printable data rows)
        = map fst (zip ?vs (extents ?vs))"
    by (simp add: extract_strings_def Let_def comp_def case_prod_unfold value_make_record)
  also have "\<dots> = ?vs"
    by (simp add: length_extents)
  finally show ?thesis .
qed

lemma lookup_entry:
  "distinct (map fst m) \<Longrightarrow> (k, offs) \<in> set m \<Longrightarrow> lookup m k = offs"
  by (simp add: lookup_def)

lemma table_entries:
  assumes "(k, offs) \<in> set (load_and_group_pointers rows)"
  shows "in_region k \<and> offs = sort (offsets_of rows k)"
proof -
  have d: "distinct (map fst (load_and_group_pointers rows))"
    using table_keys_sorted [of rows] by (simp add: strict_sorted_iff)
  have "k \<in> targets rows"
    using assms table_keys_set [of rows] by force
  then have r: "in_region k" by (simp add: targets_def)
  have "lookup (load_and_group_pointers rows) k = offs"
    using d assms by (rule lookup_entry)
  then show ?thesis using r lookup_table [of rows k] by simp
qed

lemma read_rows_delivered: "read_rows (map Delivers rows) = Inr rows"
  by (induction rows) auto

lemma read_rows_Inl: "read_rows items = Inl e \<Longrightarrow> Raises e \<in> set items"
  by (induction items rule: read_rows.induct) (auto split: sum.splits)

text \<open>
  C6, amended. The construction of the table fails only when the file cannot be opened
  or a step of the reader raises, never for what the records say. When every row is
  delivered, a table is returned, whatever the rows are: its targets are in strictly
  ascending order and are exactly the target addresses in the region that occur in a
  readable row (a record out of the region, like an unreadable row, is dropped); every
  group holds the sorted pointer locations of all the records of its target; and every
  extent derived from the table has a positive length.
\<close>

theorem table_construction_file:
  "(load_and_group_pointers_file csv_file = Inl e \<longrightarrow>
      csv_file = Inl e \<or> (\<exists>items. csv_file = Inr items \<and> Raises e \<in> set items)) \<and>
   (csv_file = Inr (map Delivers rows) \<longrightarrow>
      (\<exists>table. load_and_group_pointers_file csv_file = Inr table \<and>
         table = load_and_group_pointers rows \<and>
         sorted_wrt (<) (map fst table) \<and>
         set (map fst table) = targets rows \<and>
         (\<forall>(k, offs) \<in> set table. offs = sort (offsets_of rows k)) \<and>
         (\<forall>(s, e) \<in> set (extents (valid_vals printable data table)). s < e)))"
proof (intro conjI impI)
  assume "load_and_group_pointers_file csv_file = Inl e"
  then show "csv_file = Inl e \<or> (\<exists>items. csv_file = Inr items \<and> Raises e \<in> set items)"
    by (auto simp: load_and_group_pointers_file_def split: sum.splits dest: read_rows_Inl)
next
  assume f: "csv_file = Inr (map Delivers rows)"
  have r: "load_and_group_pointers_file csv_file = Inr (load_and_group_pointers rows)"
    by (simp add: f load_and_group_pointers_file_def read_rows_delivered)
  have "sorted_wrt (<) (map fst (load_and_group_pointers rows))"
    by (rule table_keys_sorted)
  moreover have "set (map fst (load_and_group_pointers rows)) = targets rows"
    by (rule table_keys_set)
  moreover have "\<forall>(k, offs) \<in> set (load_and_group_pointers rows). offs = sort (offsets_of rows k)"
    using table_entries by blast
  moreover have "\<forall>(s, e) \<in> set (extents (valid_vals printable data (load_and_group_pointers rows))). s < e"
    using extents_positive [OF valid_vals_sorted] valid_vals_in_region by blast
  ultimately show "\<exists>table. load_and_group_pointers_file csv_file = Inr table \<and>
         table = load_and_group_pointers rows \<and>
         sorted_wrt (<) (map fst table) \<and>
         set (map fst table) = targets rows \<and>
         (\<forall>(k, offs) \<in> set table. offs = sort (offsets_of rows k)) \<and>
         (\<forall>(s, e) \<in> set (extents (valid_vals printable data table)). s < e)"
    using r by blast
qed

text \<open>
  C1, amended. The extents are those of the targets that pass the two checks of the first
  loop: as many as there are such targets, at most as many as the table has targets, in
  strictly ascending order; extent \<open>i\<close> starts at the \<open>i\<close>-th valid target; and when there
  is a valid target, the extents are non-empty and tile the range from the first valid
  target to \<^verbatim>\<open>PATCH_END\<close>, the end of an extent being the next valid target, or
  \<^verbatim>\<open>PATCH_END\<close> for the last one.
\<close>

theorem extents_chain:
  fixes printable :: "nat \<Rightarrow> bool" and data :: "byte list" and rows :: "(int \<times> int) option list"
  defines "table \<equiv> load_and_group_pointers rows"
  defines "vals \<equiv> valid_vals printable data table"
  shows "sorted_wrt (<) vals \<and> set vals \<subseteq> targets rows \<and>
         length (extents vals) = length vals \<and> length vals \<le> length table \<and>
         map fst (extents vals) = map (\<lambda>v. v - BASE_ADDR) vals \<and>
         (case vals of
            [] \<Rightarrow> True
          | v # vs \<Rightarrow>
              chain (v - BASE_ADDR) (PATCH_END - BASE_ADDR) (extents vals) \<and>
              map snd (extents vals) = map (\<lambda>v. v - BASE_ADDR) vs @ [PATCH_END - BASE_ADDR])"
proof (intro conjI)
  show s: "sorted_wrt (<) vals"
    unfolding vals_def table_def by (rule valid_vals_sorted)
  show "set vals \<subseteq> targets rows"
    using table_keys_set [of rows] by (auto simp: vals_def table_def valid_vals_def)
  show "length (extents vals) = length vals" by (rule length_extents)
  have "length vals \<le> length (map fst table)"
    unfolding vals_def valid_vals_def by (rule length_filter_le)
  then show "length vals \<le> length table" by simp
  show "map fst (extents vals) = map (\<lambda>v. v - BASE_ADDR) vals" by (rule starts_extents)
  show "case vals of
            [] \<Rightarrow> True
          | v # vs \<Rightarrow>
              chain (v - BASE_ADDR) (PATCH_END - BASE_ADDR) (extents vals) \<and>
              map snd (extents vals) = map (\<lambda>v. v - BASE_ADDR) vs @ [PATCH_END - BASE_ADDR]"
  proof (cases vals)
    case Nil
    then show ?thesis by simp
  next
    case (Cons v vs)
    have b: "\<forall>x \<in> set (v # vs). x < PATCH_END"
      using valid_vals_in_region [of _ printable data rows] Cons
      by (auto simp: vals_def table_def)
    have "chain (v - BASE_ADDR) (PATCH_END - BASE_ADDR) (extents (v # vs))"
      using s b unfolding Cons by (rule chain_extents)
    moreover have "map snd (extents (v # vs)) = map (\<lambda>v. v - BASE_ADDR) vs @ [PATCH_END - BASE_ADDR]"
      using ends_extents [of "v # vs"] by simp
    ultimately show ?thesis by (simp add: Cons)
  qed
qed

text \<open>
  Which targets give a row: those of the table that pass the checks. When the image has
  two bytes at the target, passing means a separator pair before the target and a
  printable 2-byte unit at it.
\<close>

lemma record_iff_valid:
  "val \<in> set (map rec_pointer_value (extract_strings printable data rows))
   \<longleftrightarrow> val \<in> targets rows \<and> is_valid printable data val"
  unfolding values_extract_strings valid_vals_def
  using table_keys_set [of rows] by auto

lemma decode_strict_two:
  "length bs = 2 \<Longrightarrow> decode_strict bs = Some ch \<Longrightarrow>
   \<exists>lo hi. bs = [lo, hi] \<and> \<not> is_surrogate (unit_of lo hi) \<and> ch = [unit_of lo hi]"
  by (cases bs rule: sep_run.cases) (auto simp: decode_strict_def Let_def split: if_splits)

lemma is_valid_two_bytes:
  assumes "is_valid printable data val" "val - BASE_ADDR + 2 \<le> int (length data)"
  shows "2 \<le> val - BASE_ADDR \<and> is_separator (py_slice data (val - BASE_ADDR - 2) (val - BASE_ADDR)) \<and>
         (\<exists>lo hi. py_slice data (val - BASE_ADDR) (val - BASE_ADDR + 2) = [lo, hi] \<and>
                  \<not> is_surrogate (unit_of lo hi) \<and> printable (unit_of lo hi))"
proof -
  let ?fo = "val - BASE_ADDR"
  have a: "\<not> ?fo < 2" "is_separator (py_slice data (?fo - 2) ?fo)"
    using assms(1) by (auto simp: is_valid_def Let_def split: if_splits)
  obtain ch where ch: "decode_strict (py_slice data ?fo (?fo + 2)) = Some ch" "list_all printable ch"
    using assms(1) a by (auto simp: is_valid_def Let_def split: if_splits option.splits)
  have "length (py_slice data ?fo (?fo + 2)) = 2"
    using a(1) assms(2) by (simp add: py_slice_nonneg)
  from decode_strict_two [OF this ch(1)] ch(2) a show ?thesis by auto
qed

text \<open>
  The running example: pointers to \<open>0x949724\<close> and \<open>0x94972A\<close>, an unreadable row and a
  pointer to \<open>0x100\<close>, outside the region; and an image with \<^verbatim>\<open>00 00 "Hi" 00 00 "A"\<close> from
  file offset \<open>0x849722\<close> on.
\<close>

lemma example_table:
  "load_and_group_pointers
     [Some (0x100020, 0x94972A), None, Some (0x100010, 0x949724), Some (0x100030, 0x100)]
   = [(0x949724, [0x100010]), (0x94972A, [0x100020])]"
  by (simp add: load_and_group_pointers_def PATCH_START_def PATCH_END_def)

lemma example_vals_A:
  "valid_vals printable_ascii
     (replicate 0x849722 0x20 @ [0x00, 0x00, 0x48, 0x00, 0x69, 0x00, 0x00, 0x00, 0x41, 0x00])
     [(0x949724, [0x100010]), (0x94972A, [0x100020])]
   = [0x949724, 0x94972A]"
  by (simp add: valid_vals_def is_valid_def BASE_ADDR_def py_slice_nonneg is_separator_def
      decode_strict_def unit_of_def is_surrogate_def printable_ascii_def Let_def)

lemma example_vals_B:
  "valid_vals printable_ascii
     (replicate 0x849722 0x20 @ [0x20, 0x20, 0x48, 0x00, 0x69, 0x00, 0x00, 0x00, 0x41, 0x00])
     [(0x949724, [0x100010]), (0x94972A, [0x100020])]
   = [0x94972A]"
  by (simp add: valid_vals_def is_valid_def BASE_ADDR_def py_slice_nonneg is_separator_def
      decode_strict_def unit_of_def is_surrogate_def printable_ascii_def Let_def)

text \<open>
  C1, as stated, fails on the example. The table has two targets, both valid, and the two
  extents start at file offset \<open>0x849724\<close>, not at the start \<open>0x849720\<close> of the region:
  they do not tile the region. With \<open>20 20\<close> in place of the first separator the first
  target is not valid, and there is one extent for two targets.
\<close>

theorem extents_partition_counterexample:
  "length (load_and_group_pointers
     [Some (0x100020, 0x94972A), None, Some (0x100010, 0x949724), Some (0x100030, 0x100)]) = 2 \<and>
   extents (valid_vals printable_ascii
     (replicate 0x849722 0x20 @ [0x00, 0x00, 0x48, 0x00, 0x69, 0x00, 0x00, 0x00, 0x41, 0x00])
     (load_and_group_pointers
       [Some (0x100020, 0x94972A), None, Some (0x100010, 0x949724), Some (0x100030, 0x100)]))
   = [(0x849724, 0x84972A), (0x84972A, 0xA51CD0)] \<and>
   \<not> chain (PATCH_START - BASE_ADDR) (PATCH_END - BASE_ADDR)
     (extents (valid_vals printable_ascii
       (replicate 0x849722 0x20 @ [0x00, 0x00, 0x48, 0x00, 0x69, 0x00, 0x00, 0x00, 0x41, 0x00])
       (load_and_group_pointers
         [Some (0x100020, 0x94972A), None, Some (0x100010, 0x949724), Some (0x100030, 0x100)]))) \<and>
   extents (valid_vals printable_ascii
     (replicate 0x849722 0x20 @ [0x20, 0x20, 0x48, 0x00, 0x69, 0x00, 0x00, 0x00, 0x41, 0x00])
     (load_and_group_pointers
       [Some (0x100020, 0x94972A), None, Some (0x100010, 0x949724), Some (0x100030, 0x100)]))
   = [(0x84972A, 0xA51CD0)]"
  by (simp add: example_table example_vals_A example_vals_B BASE_ADDR_def PATCH_START_def
      PATCH_END_def)

theorem extents_chain_witness:
  "valid_vals printable_ascii
     (replicate 0x849722 0x20 @ [0x00, 0x00, 0x48, 0x00, 0x69, 0x00, 0x00, 0x00, 0x41, 0x00])
     (load_and_group_pointers
       [Some (0x100020, 0x94972A), None, Some (0x100010, 0x949724), Some (0x100030, 0x100)])
   = [0x949724, 0x94972A] \<and>
   chain (0x949724 - BASE_ADDR) (PATCH_END - BASE_ADDR)
     (extents [0x949724, 0x94972A]) \<and>
   map snd (extents [0x949724, 0x94972A]) = [0x94972A - BASE_ADDR, PATCH_END - BASE_ADDR]"
  using extents_chain [of printable_ascii
     "replicate 0x849722 0x20 @ [0x00, 0x00, 0x48, 0x00, 0x69, 0x00, 0x00, 0x00, 0x41, 0x00]"
     "[Some (0x100020, 0x94972A), None, Some (0x100010, 0x949724), Some (0x100030, 0x100)]"]
  by (simp add: example_table example_vals_A)

text \<open>Two records for one pointer location that disagree.\<close>

lemma example_conflict:
  "load_and_group_pointers_file
     (Inr [Delivers (Some (0x100010, 0x949724)), Delivers (Some (0x100010, 0x100))])
   = Inr [(0x949724, [0x100010])]"
  by (simp add: load_and_group_pointers_file_def load_and_group_pointers_def
      PATCH_START_def PATCH_END_def)

text \<open>
  C6, as stated, fails on these two records: they give the pointer location \<open>0x100010\<close>
  two targets, one in the region and one out of it. The table is built, without the second
  record, and nothing is raised.
\<close>

theorem conflicting_records_counterexample:
  "load_and_group_pointers_file
     (Inr [Delivers (Some (0x100010, 0x949724)), Delivers (Some (0x100010, 0x100))])
   = Inr [(0x949724, [0x100010])] \<and>
   in_region 0x949724 \<and> \<not> in_region 0x100"
  by (simp add: example_conflict in_region_def PATCH_START_def PATCH_END_def)

theorem table_construction_file_witness:
  "load_and_group_pointers_file
     (Inr [Delivers (Some (0x100010, 0x949724)), Delivers (Some (0x100010, 0x100))])
   = Inr [(0x949724, [0x100010])] \<and>
   load_and_group_pointers [Some (0x100010, 0x949724), Some (0x100010, 0x100)]
   = [(0x949724, [0x100010])] \<and>
   load_and_group_pointers_file
     (Inr [Delivers (Some (0x100010, 0x949724)), Raises CsvError, Delivers (Some (0x100010, 0x100))])
   = Inl CsvError"
proof -
  have m: "(Inr [Delivers (Some (0x100010, 0x949724)), Delivers (Some (0x100010, 0x100))]
              :: read_error + csv_item list)
           = Inr (map Delivers [Some (0x100010, 0x949724), Some (0x100010, 0x100)])"
    by simp
  have "\<exists>table. load_and_group_pointers_file
            (Inr [Delivers (Some (0x100010, 0x949724)), Delivers (Some (0x100010, 0x100))])
          = Inr table \<and>
          table = load_and_group_pointers [Some (0x100010, 0x949724), Some (0x100010, 0x100)]"
    using table_construction_file [of
        "Inr [Delivers (Some (0x100010, 0x949724)), Delivers (Some (0x100010, 0x100))]"
        CsvError "[Some (0x100010, 0x949724), Some (0x100010, 0x100)]" printable_ascii "[]"] m
    by blast
  then have t: "load_and_group_pointers [Some (0x100010, 0x949724), Some (0x100010, 0x100)]
                = [(0x949724, [0x100010])]"
    using example_conflict by simp
  have l: "load_and_group_pointers_file
     (Inr [Delivers (Some (0x100010, 0x949724)), Raises CsvError, Delivers (Some (0x100010, 0x100))])
   = Inl CsvError"
    by (simp add: load_and_group_pointers_file_def)
  show ?thesis
    using example_conflict t l by simp
qed

lemma strip_empty: "strip_trailing_separators [] = ([], [])"
  by (simp add: strip_trailing_separators_def strip_loop.simps)

text \<open>
  C9. An image that ends exactly at a target, with a separator pair before it: there are
  no two bytes at the target, the empty slice decodes to the empty string, which
  \<^verbatim>\<open>isprintable\<close> accepts, and the target gives a row, with an empty text.
\<close>

theorem record_at_end_of_image:
  "length (replicate 0x84971E 0x20 @ [0x00, 0x00 :: byte]) = nat (0x949720 - BASE_ADDR) \<and>
   py_slice (replicate 0x84971E 0x20 @ [0x00, 0x00 :: byte])
     (0x949720 - BASE_ADDR) (0x949720 - BASE_ADDR + 2) = [] \<and>
   extract_strings printable_ascii (replicate 0x84971E 0x20 @ [0x00, 0x00])
     [Some (0x100010, 0x949720)]
   = [\<lparr>rec_pointer_offsets = [0x100010], rec_pointer_value = 0x949720,
       rec_separators = [], rec_extract = []\<rparr>]"
  by (simp add: extract_strings_def load_and_group_pointers_def PATCH_START_def PATCH_END_def
      valid_vals_def is_valid_def BASE_ADDR_def py_slice_nonneg is_separator_def
      decode_strict_def Let_def make_record_def strip_empty lookup_def rstrip_nul_def
      escape_newlines_def)

end
